theory Spec2Isabelle
  imports Complex_Main "HOL-Library.AList"
begin

section \<open>Common values and errors\<close>

text \<open>
  A Python float is modelled by the real number it denotes, and every comparison and
  arithmetic expression of the source is kept as written. Where the rounding of double
  arithmetic decides a property (the chain and parallel aggregations of the confidence
  scorer), the rounding is a parameter of the model: \<open>fl\<close> maps the exact result of an
  operation to the double the machine returns.
\<close>

text \<open>
  The exceptions the modelled code raises. The source raises \<open>ValueError\<close> with a
  formatted message; the message is kept as a constructor that carries the value the
  source interpolates into it.
\<close>

datatype message =
    Factor_out_of_range real   \<comment> \<open>"Confidence factor must be between 0 and 1, got {value}"\<close>
  | Source_not_in_graph string \<comment> \<open>"Source node {source} not in graph"\<close>
  | Target_not_in_graph string \<comment> \<open>"Target node {target} not in graph"\<close>
  | Execution_not_found int    \<comment> \<open>"Execution {execution_id} not found"\<close>

datatype error =
    ValueError message
  | KeyError string
  | TypeError
  | AttributeError
  | OverflowError
  | IntegrityError
  | Not_modelled   \<comment> \<open>not a Python exception: the input lies outside what this model covers\<close>


text \<open>
  Dynamically typed Python values, as far as the modelled code stores them: the JSON
  columns of the vault, the attribute dictionaries of graph nodes and edges, and case
  metadata. A dictionary that is itself a value keeps its items in insertion order.
\<close>

datatype pyval =
    PNone
  | PBool bool
  | PInt int
  | PFloat real
  | PStr string
  | PList "pyval list"
  | PDict "(string \<times> pyval) list"

text \<open>
  A \<open>datetime\<close> is represented by its ISO-8601 text, so that \<open>isoformat\<close> and
  \<open>fromisoformat\<close> are the identity on it. The clock (\<open>datetime.now\<close>) is an input
  of every operation that reads it.
\<close>

type_synonym datetime = string

text \<open>
  A dictionary with string keys that the code only reads by key is a map; \<open>{**a, **b}\<close>
  and \<open>a.update(b)\<close> are \<open>a ++ b\<close>. Two such dictionaries are equal when they have the
  same keys with the same values, as in Python.
\<close>

type_synonym attrs = "string \<rightharpoonup> pyval"

text \<open>Python's \<open>x or {}\<close> and \<open>x or []\<close> for an optional dictionary or list.\<close>

definition or_empty :: "'a list option \<Rightarrow> 'a list" where
  "or_empty x = (case x of None \<Rightarrow> [] | Some xs \<Rightarrow> xs)"

section \<open>Confidence scorer (causal/confidence.py)\<close>

definition HIGH :: string where "HIGH = ''high''"
definition MEDIUM :: string where "MEDIUM = ''medium''"
definition LOW :: string where "LOW = ''low''"
definition INSUFFICIENT :: string where "INSUFFICIENT = ''insufficient''"

definition W_evidence_quality :: real where "W_evidence_quality = 0.40"
definition W_reasoning_coherence :: real where "W_reasoning_coherence = 0.30"
definition W_llm_confidence :: real where "W_llm_confidence = 0.20"
definition W_context_match :: real where "W_context_match = 0.10"

definition THRESHOLD_HIGH :: real where "THRESHOLD_HIGH = 0.80"
definition THRESHOLD_MEDIUM :: real where "THRESHOLD_MEDIUM = 0.60"
definition THRESHOLD_LOW :: real where "THRESHOLD_LOW = 0.40"


text \<open>
  \<open>calculate\<close>: the validation loop visits the four factors in order and raises at the
  first one for which \<open>0.0 <= value <= 1.0\<close> is false; otherwise the weighted sum is
  returned.
\<close>

definition calculate :: "real \<Rightarrow> real \<Rightarrow> real \<Rightarrow> real \<Rightarrow> error + real" where
  "calculate evidence_quality reasoning_coherence llm_confidence context_match =
     (case find (\<lambda>v. \<not> (0.0 \<le> v \<and> v \<le> 1.0))
             [evidence_quality, reasoning_coherence, llm_confidence, context_match] of
        Some v \<Rightarrow> Inl (ValueError (Factor_out_of_range v))
      | None \<Rightarrow>
          Inr (evidence_quality * W_evidence_quality +
               reasoning_coherence * W_reasoning_coherence +
               llm_confidence * W_llm_confidence +
               context_match * W_context_match))"




definition get_level :: "real \<Rightarrow> string" where
  "get_level confidence =
     (if confidence \<ge> THRESHOLD_HIGH then HIGH
      else if confidence \<ge> THRESHOLD_MEDIUM then MEDIUM
      else if confidence \<ge> THRESHOLD_LOW then LOW
      else INSUFFICIENT)"

section \<open>Explainability vault (storage/vault.py)\<close>

subsection \<open>The five tables\<close>

record Input =
  in_id :: int
  in_source :: string
  in_content :: string
  in_content_hash :: string
  in_meta_data :: pyval
  in_timestamp :: datetime
  in_prev_hash :: "string option"

record AgentExecution =
  ae_id :: int
  ae_input_id :: int
  ae_agent_id :: string
  ae_agent_input :: string
  ae_agent_output :: string
  ae_tool_calls :: pyval
  ae_duration_ms :: "real option"
  ae_timestamp :: datetime
  ae_prev_hash :: "string option"

record CausalStep =
  cs_id :: int
  cs_execution_id :: int
  cs_premise :: string
  cs_conclusion :: string
  cs_confidence :: real
  cs_evidence_refs :: pyval
  cs_reasoning_type :: string
  cs_timestamp :: datetime
  cs_prev_hash :: "string option"

record PolicyCheck =
  pc_id :: int
  pc_execution_id :: int
  pc_policy_name :: string
  pc_result :: string
  pc_details :: pyval
  pc_violations :: pyval
  pc_timestamp :: datetime
  pc_prev_hash :: "string option"

record Output =
  out_id :: int
  out_execution_id :: int
  out_conclusion :: string
  out_confidence :: real
  out_risk_flags :: pyval
  out_recommendations :: pyval
  out_timestamp :: datetime
  out_prev_hash :: "string option"

text \<open>
  The database: each table is the list of its rows in insertion order. A session that
  commits appends its row; a session that rolls back leaves the table as it was.
\<close>

record vault =
  inputs :: "Input list"
  agent_executions :: "AgentExecution list"
  causal_steps :: "CausalStep list"
  policy_checks :: "PolicyCheck list"
  outputs :: "Output list"

definition empty_vault :: vault where
  "empty_vault = \<lparr>inputs = [], agent_executions = [], causal_steps = [],
                   policy_checks = [], outputs = []\<rparr>"

subsection \<open>Queries and hashing\<close>

text \<open>\<open>query(T).order_by(T.id.desc()).first()\<close>: the row with the greatest id, if any.\<close>

fun order_by_id_desc_first :: "('r \<Rightarrow> int) \<Rightarrow> 'r list \<Rightarrow> 'r option" where
  "order_by_id_desc_first key [] = None"
| "order_by_id_desc_first key (r # rs) =
     (case order_by_id_desc_first key rs of
        None \<Rightarrow> Some r
      | Some r' \<Rightarrow> if key r < key r' then Some r' else Some r)"

text \<open>The autoincrement primary key: one more than the greatest id in the table.\<close>

definition autoincrement :: "('r \<Rightarrow> int) \<Rightarrow> 'r list \<Rightarrow> int" where
  "autoincrement key table =
     (case order_by_id_desc_first key table of None \<Rightarrow> 1 | Some r \<Rightarrow> key r + 1)"

text \<open>
  \<open>_compute_hash\<close>: SHA-256 of the JSON text with sorted keys. Both library functions
  are parameters of the model.
\<close>

definition compute_hash :: "(string \<Rightarrow> string) \<Rightarrow> (pyval \<Rightarrow> string) \<Rightarrow> pyval \<Rightarrow> string" where
  "compute_hash sha256_hexdigest json_dumps_sorted data =
     sha256_hexdigest (json_dumps_sorted data)"

text \<open>
  \<open>_get_last_hash\<close>: the source returns the \<open>prev_hash\<close> column of the most recent
  row of the table (not a hash computed from that row), or \<open>None\<close> on an empty table.
\<close>

definition get_last_hash ::
  "('r \<Rightarrow> int) \<Rightarrow> ('r \<Rightarrow> string option) \<Rightarrow> 'r list \<Rightarrow> string option" where
  "get_last_hash key prev_hash table =
     (case order_by_id_desc_first key table of
        Some last_record \<Rightarrow> prev_hash last_record
      | None \<Rightarrow> None)"

text \<open>
  SQLite stores an integer in 64 bits, signed: binding a Python integer outside that
  range to a statement raises \<open>OverflowError\<close>.
\<close>

definition sqlite_integer :: "int \<Rightarrow> bool" where
  "sqlite_integer i = (- (2 ^ 63) \<le> i \<and> i < 2 ^ 63)"

subsection \<open>Writes\<close>

text \<open>
  Every \<open>log_*\<close> call returns the database after the call together with the new id or
  the exception. An insert fails on the unique constraint of \<open>inputs.content_hash\<close>
  (\<open>IntegrityError\<close>) and on an integer argument outside SQLite's range
  (\<open>OverflowError\<close>): the session is rolled back and the exception is raised again.
\<close>

definition log_input ::
  "(string \<Rightarrow> string) \<Rightarrow> (pyval \<Rightarrow> string) \<Rightarrow> vault \<Rightarrow> datetime \<Rightarrow>
   string \<Rightarrow> string \<Rightarrow> (string \<times> pyval) list option \<Rightarrow> vault \<times> (error + int)" where
  "log_input sha256_hexdigest json_dumps_sorted v now source content metadata =
     (let content_hash = compute_hash sha256_hexdigest json_dumps_sorted
                           (PDict [(''content'', PStr content)]);
          prev_hash = get_last_hash in_id in_prev_hash (inputs v);
          input_record = \<lparr>in_id = autoincrement in_id (inputs v),
                          in_source = source,
                          in_content = content,
                          in_content_hash = content_hash,
                          in_meta_data = PDict (or_empty metadata),
                          in_timestamp = now,
                          in_prev_hash = prev_hash\<rparr>
      in if content_hash \<in> set (map in_content_hash (inputs v))
         then (v, Inl IntegrityError)
         else (v\<lparr>inputs := inputs v @ [input_record]\<rparr>, Inr (in_id input_record)))"

definition log_agent_execution ::
  "vault \<Rightarrow> datetime \<Rightarrow> int \<Rightarrow> string \<Rightarrow> string \<Rightarrow> string \<Rightarrow>
   pyval list option \<Rightarrow> real option \<Rightarrow> vault \<times> (error + int)" where
  "log_agent_execution v now input_id agent_id agent_input agent_output tool_calls duration_ms =
     (let prev_hash = get_last_hash ae_id ae_prev_hash (agent_executions v);
          execution = \<lparr>ae_id = autoincrement ae_id (agent_executions v),
                       ae_input_id = input_id,
                       ae_agent_id = agent_id,
                       ae_agent_input = agent_input,
                       ae_agent_output = agent_output,
                       ae_tool_calls = PList (or_empty tool_calls),
                       ae_duration_ms = duration_ms,
                       ae_timestamp = now,
                       ae_prev_hash = prev_hash\<rparr>
      in if \<not> sqlite_integer input_id then (v, Inl OverflowError)
         else (v\<lparr>agent_executions := agent_executions v @ [execution]\<rparr>,
               Inr (ae_id execution)))"

definition log_causal_step ::
  "vault \<Rightarrow> datetime \<Rightarrow> int \<Rightarrow> string \<Rightarrow> string \<Rightarrow> real \<Rightarrow>
   string list option \<Rightarrow> string \<Rightarrow> vault \<times> (error + int)" where
  "log_causal_step v now execution_id premise conclusion confidence evidence_refs reasoning_type =
     (let prev_hash = get_last_hash cs_id cs_prev_hash (causal_steps v);
          step = \<lparr>cs_id = autoincrement cs_id (causal_steps v),
                  cs_execution_id = execution_id,
                  cs_premise = premise,
                  cs_conclusion = conclusion,
                  cs_confidence = confidence,
                  cs_evidence_refs = PList (map PStr (or_empty evidence_refs)),
                  cs_reasoning_type = reasoning_type,
                  cs_timestamp = now,
                  cs_prev_hash = prev_hash\<rparr>
      in if \<not> sqlite_integer execution_id then (v, Inl OverflowError)
         else (v\<lparr>causal_steps := causal_steps v @ [step]\<rparr>, Inr (cs_id step)))"

definition log_policy_check ::
  "vault \<Rightarrow> datetime \<Rightarrow> int \<Rightarrow> string \<Rightarrow> string \<Rightarrow>
   (string \<times> pyval) list option \<Rightarrow> pyval list option \<Rightarrow> vault \<times> (error + int)" where
  "log_policy_check v now execution_id policy_name result details violations =
     (let prev_hash = get_last_hash pc_id pc_prev_hash (policy_checks v);
          check = \<lparr>pc_id = autoincrement pc_id (policy_checks v),
                   pc_execution_id = execution_id,
                   pc_policy_name = policy_name,
                   pc_result = result,
                   pc_details = PDict (or_empty details),
                   pc_violations = PList (or_empty violations),
                   pc_timestamp = now,
                   pc_prev_hash = prev_hash\<rparr>
      in if \<not> sqlite_integer execution_id then (v, Inl OverflowError)
         else (v\<lparr>policy_checks := policy_checks v @ [check]\<rparr>, Inr (pc_id check)))"

definition log_output ::
  "vault \<Rightarrow> datetime \<Rightarrow> int \<Rightarrow> string \<Rightarrow> real \<Rightarrow>
   string list option \<Rightarrow> string list option \<Rightarrow> vault \<times> (error + int)" where
  "log_output v now execution_id conclusion confidence risk_flags recommendations =
     (let prev_hash = get_last_hash out_id out_prev_hash (outputs v);
          output = \<lparr>out_id = autoincrement out_id (outputs v),
                    out_execution_id = execution_id,
                    out_conclusion = conclusion,
                    out_confidence = confidence,
                    out_risk_flags = PList (map PStr (or_empty risk_flags)),
                    out_recommendations = PList (map PStr (or_empty recommendations)),
                    out_timestamp = now,
                    out_prev_hash = prev_hash\<rparr>
      in if \<not> sqlite_integer execution_id then (v, Inl OverflowError)
         else (v\<lparr>outputs := outputs v @ [output]\<rparr>, Inr (out_id output)))"

subsection \<open>Reading a trail\<close>

text \<open>
  The first query binds \<open>execution_id\<close>; outside SQLite's integer range it raises
  before any row is looked at.
\<close>

record trail_step =
  ts_premise :: string
  ts_conclusion :: string
  ts_confidence :: real
  ts_evidence_refs :: pyval
  ts_reasoning_type :: string

record trail_check =
  tc_policy_name :: string
  tc_result :: string
  tc_details :: pyval
  tc_violations :: pyval

record trail_output =
  to_conclusion :: string
  to_confidence :: real
  to_risk_flags :: pyval
  to_recommendations :: pyval

record trail =
  tr_execution_id :: int
  tr_agent_id :: string
  tr_agent_input :: string
  tr_agent_output :: string
  tr_tool_calls :: pyval
  tr_duration_ms :: "real option"
  tr_causal_steps :: "trail_step list"
  tr_policy_checks :: "trail_check list"
  tr_output :: "trail_output option"

definition get_reasoning_trail :: "vault \<Rightarrow> int \<Rightarrow> error + trail" where
  "get_reasoning_trail v execution_id =
     (if \<not> sqlite_integer execution_id then Inl OverflowError
      else
      case find (\<lambda>e. ae_id e = execution_id) (agent_executions v) of
        None \<Rightarrow> Inl (ValueError (Execution_not_found execution_id))
      | Some execution \<Rightarrow>
          (let causal = filter (\<lambda>s. cs_execution_id s = execution_id) (causal_steps v);
               checks = filter (\<lambda>c. pc_execution_id c = execution_id) (policy_checks v);
               output = find (\<lambda>out. out_execution_id out = execution_id) (outputs v)
           in Inr \<lparr>tr_execution_id = execution_id,
                   tr_agent_id = ae_agent_id execution,
                   tr_agent_input = ae_agent_input execution,
                   tr_agent_output = ae_agent_output execution,
                   tr_tool_calls = ae_tool_calls execution,
                   tr_duration_ms = ae_duration_ms execution,
                   tr_causal_steps =
                     map (\<lambda>step. \<lparr>ts_premise = cs_premise step,
                                     ts_conclusion = cs_conclusion step,
                                     ts_confidence = cs_confidence step,
                                     ts_evidence_refs = cs_evidence_refs step,
                                     ts_reasoning_type = cs_reasoning_type step\<rparr>) causal,
                   tr_policy_checks =
                     map (\<lambda>check. \<lparr>tc_policy_name = pc_policy_name check,
                                      tc_result = pc_result check,
                                      tc_details = pc_details check,
                                      tc_violations = pc_violations check\<rparr>) checks,
                   tr_output =
                     map_option (\<lambda>out. \<lparr>to_conclusion = out_conclusion out,
                                           to_confidence = out_confidence out,
                                           to_risk_flags = out_risk_flags out,
                                           to_recommendations = out_recommendations out\<rparr>)
                       output\<rparr>))"

subsection \<open>Sequences of writes\<close>

text \<open>
  A vault is only ever changed through the five \<open>log_*\<close> calls. A history is a list of
  such calls, each with its arguments and the clock value it reads.
\<close>

datatype call =
    Log_input datetime string string "(string \<times> pyval) list option"
  | Log_agent_execution datetime int string string string "pyval list option" "real option"
  | Log_causal_step datetime int string string real "string list option" string
  | Log_policy_check datetime int string string "(string \<times> pyval) list option"
      "pyval list option"
  | Log_output datetime int string real "string list option" "string list option"

fun perform ::
  "(string \<Rightarrow> string) \<Rightarrow> (pyval \<Rightarrow> string) \<Rightarrow> vault \<Rightarrow> call \<Rightarrow> vault \<times> (error + int)" where
  "perform sha js v (Log_input now source content metadata) =
     log_input sha js v now source content metadata"
| "perform sha js v (Log_agent_execution now input_id agent_id agent_input agent_output
      tool_calls duration_ms) =
     log_agent_execution v now input_id agent_id agent_input agent_output tool_calls duration_ms"
| "perform sha js v (Log_causal_step now execution_id premise conclusion confidence
      evidence_refs reasoning_type) =
     log_causal_step v now execution_id premise conclusion confidence evidence_refs reasoning_type"
| "perform sha js v (Log_policy_check now execution_id policy_name result details violations) =
     log_policy_check v now execution_id policy_name result details violations"
| "perform sha js v (Log_output now execution_id conclusion confidence risk_flags
      recommendations) =
     log_output v now execution_id conclusion confidence risk_flags recommendations"

fun run :: "(string \<Rightarrow> string) \<Rightarrow> (pyval \<Rightarrow> string) \<Rightarrow> vault \<Rightarrow> call list \<Rightarrow> vault" where
  "run sha js v [] = v"
| "run sha js v (c # cs) = run sha js (fst (perform sha js v c)) cs"

text \<open>The \<open>prev_hash\<close> columns of the five tables, table by table.\<close>

definition prev_hashes :: "vault \<Rightarrow> string option list list" where
  "prev_hashes v =
     [map in_prev_hash (inputs v), map ae_prev_hash (agent_executions v),
      map cs_prev_hash (causal_steps v), map pc_prev_hash (policy_checks v),
      map out_prev_hash (outputs v)]"

section \<open>Causal graph (causal/graph.py)\<close>

datatype NodeType = SYMPTOM | DIAGNOSIS | TREATMENT | OUTCOME | EVIDENCE

fun node_type_value :: "NodeType \<Rightarrow> string" where
  "node_type_value SYMPTOM = ''symptom''"
| "node_type_value DIAGNOSIS = ''diagnosis''"
| "node_type_value TREATMENT = ''treatment''"
| "node_type_value OUTCOME = ''outcome''"
| "node_type_value EVIDENCE = ''evidence''"

datatype EdgeType = CAUSES | TREATED_BY | LEADS_TO | SUPPORTS

fun edge_type_value :: "EdgeType \<Rightarrow> string" where
  "edge_type_value CAUSES = ''causes''"
| "edge_type_value TREATED_BY = ''treated_by''"
| "edge_type_value LEADS_TO = ''leads_to''"
| "edge_type_value SUPPORTS = ''supports''"

datatype CausalStrength = WEAK | MODERATE | STRONG

fun causal_strength_value :: "CausalStrength \<Rightarrow> string" where
  "causal_strength_value WEAK = ''weak''"
| "causal_strength_value MODERATE = ''moderate''"
| "causal_strength_value STRONG = ''strong''"

record CausalNode =
  cn_node_id :: string
  cn_node_type :: NodeType
  cn_content :: string
  cn_confidence :: real
  cn_metadata :: "(string \<times> pyval) list"
  cn_timestamp :: datetime

definition node_to_dict :: "CausalNode \<Rightarrow> attrs" where
  "node_to_dict node =
     [''node_id'' \<mapsto> PStr (cn_node_id node),
      ''node_type'' \<mapsto> PStr (node_type_value (cn_node_type node)),
      ''content'' \<mapsto> PStr (cn_content node),
      ''confidence'' \<mapsto> PFloat (cn_confidence node),
      ''metadata'' \<mapsto> PDict (cn_metadata node),
      ''timestamp'' \<mapsto> PStr (cn_timestamp node)]"

record CausalEdge =
  ce_source :: string
  ce_target :: string
  ce_edge_type :: EdgeType
  ce_confidence :: real
  ce_causal_strength :: CausalStrength
  ce_evidence_refs :: "string list"
  ce_reasoning_type :: string
  ce_metadata :: "(string \<times> pyval) list"

definition edge_to_dict :: "CausalEdge \<Rightarrow> attrs" where
  "edge_to_dict edge =
     [''source'' \<mapsto> PStr (ce_source edge),
      ''target'' \<mapsto> PStr (ce_target edge),
      ''edge_type'' \<mapsto> PStr (edge_type_value (ce_edge_type edge)),
      ''confidence'' \<mapsto> PFloat (ce_confidence edge),
      ''causal_strength'' \<mapsto> PStr (causal_strength_value (ce_causal_strength edge)),
      ''evidence_refs'' \<mapsto> PList (map PStr (ce_evidence_refs edge)),
      ''reasoning_type'' \<mapsto> PStr (ce_reasoning_type edge),
      ''metadata'' \<mapsto> PDict (ce_metadata edge)]"

subsection \<open>The networkx directed graph\<close>

text \<open>
  \<open>nx.DiGraph\<close> keeps three insertion-ordered dictionaries keyed by node: the node
  attributes, the successors and the predecessors. A node enters all three at the same
  moment and the modelled code never removes a node, so one ordered list of entries
  carries the node's attribute dictionary together with its successor dictionary (itself
  ordered, from successor to edge attributes). The predecessor dictionary mirrors the
  successors and is not kept. Assigning to a key of an ordered dictionary replaces the
  value in place when the key is present and appends it otherwise (\<open>AList.update\<close>).
\<close>

record nx_entry =
  node_attr :: attrs
  succ :: "(string \<times> attrs) list"

type_synonym DiGraph = "(string \<times> nx_entry) list"

definition nx_has_node :: "DiGraph \<Rightarrow> string \<Rightarrow> bool" where
  "nx_has_node G n = (n \<in> set (map fst G))"

text \<open>\<open>DiGraph.add_node(n, **attr)\<close>: a new node gets \<open>attr\<close>, a known one is updated.\<close>

definition nx_add_node :: "DiGraph \<Rightarrow> string \<Rightarrow> attrs \<Rightarrow> DiGraph" where
  "nx_add_node G n attr =
     (if nx_has_node G n
      then AList.map_entry n (\<lambda>e. e\<lparr>node_attr := node_attr e ++ attr\<rparr>) G
      else G @ [(n, \<lparr>node_attr = Map.empty ++ attr, succ = []\<rparr>)])"

text \<open>
  \<open>DiGraph.add_edge(u, v, **attr)\<close>: missing endpoints are created with no attributes;
  the edge's dictionary is the one already stored for \<open>(u, v)\<close>, or a new one, updated
  with \<open>attr\<close>.
\<close>

definition nx_add_edge :: "DiGraph \<Rightarrow> string \<Rightarrow> string \<Rightarrow> attrs \<Rightarrow> DiGraph" where
  "nx_add_edge G u v attr =
     (let G1 = (if nx_has_node G u then G
                else G @ [(u, \<lparr>node_attr = Map.empty, succ = []\<rparr>)]);
          G2 = (if nx_has_node G1 v then G1
                else G1 @ [(v, \<lparr>node_attr = Map.empty, succ = []\<rparr>)])
      in AList.map_entry u
           (\<lambda>e. e\<lparr>succ := AList.update v
                    ((case map_of (succ e) v of None \<Rightarrow> Map.empty | Some datadict \<Rightarrow> datadict)
                       ++ attr)
                    (succ e)\<rparr>) G2)"

text \<open>\<open>G.nodes(data=True)\<close> and \<open>G.edges(data=True)\<close>, in networkx's iteration order.\<close>

definition nx_nodes_data :: "DiGraph \<Rightarrow> (string \<times> attrs) list" where
  "nx_nodes_data G = map (\<lambda>(n, e). (n, node_attr e)) G"

definition nx_edges_data :: "DiGraph \<Rightarrow> (string \<times> string \<times> attrs) list" where
  "nx_edges_data G = concat (map (\<lambda>(u, e). map (\<lambda>(v, d). (u, v, d)) (succ e)) G)"

definition number_of_nodes :: "DiGraph \<Rightarrow> nat" where
  "number_of_nodes G = length G"

definition number_of_edges :: "DiGraph \<Rightarrow> nat" where
  "number_of_edges G = length (nx_edges_data G)"

definition nx_has_edge :: "DiGraph \<Rightarrow> string \<Rightarrow> string \<Rightarrow> bool" where
  "nx_has_edge G u v =
     (case map_of G u of None \<Rightarrow> False | Some e \<Rightarrow> v \<in> set (map fst (succ e)))"

subsection \<open>CausalGraph\<close>

record CausalGraph =
  cg_graph_id :: string
  cg_graph :: DiGraph
  cg_created_at :: datetime
  cg_metadata :: attrs

text \<open>
  \<open>hashlib.md5(...).hexdigest()\<close> is a parameter of the model (\<open>md5\<close>, from text to
  hexadecimal text).
\<close>

definition generate_id :: "(string \<Rightarrow> string) \<Rightarrow> datetime \<Rightarrow> string" where
  "generate_id md5 now = take 12 (md5 now)"

text \<open>
  The constructor: \<open>graph_id or self._generate_id()\<close> takes the generated identifier
  when no identifier or the empty string is given. The clock is read once for the
  generated identifier and once for \<open>created_at\<close>.
\<close>

definition init_graph ::
  "(string \<Rightarrow> string) \<Rightarrow> datetime \<Rightarrow> datetime \<Rightarrow> string option \<Rightarrow> CausalGraph" where
  "init_graph md5 now_id now graph_id =
     \<lparr>cg_graph_id = (case graph_id of
                       None \<Rightarrow> generate_id md5 now_id
                     | Some s \<Rightarrow> if s = [] then generate_id md5 now_id else s),
      cg_graph = [],
      cg_created_at = now,
      cg_metadata = Map.empty\<rparr>"

definition generate_node_id :: "(string \<Rightarrow> string) \<Rightarrow> string \<Rightarrow> NodeType \<Rightarrow> string" where
  "generate_node_id md5 content node_type =
     (let content_hash = take 8 (md5 (node_type_value node_type @ '':'' @ content))
      in node_type_value node_type @ ''_'' @ content_hash)"

text \<open>Mutating methods return the graph after the call together with their result.\<close>

definition add_node ::
  "(string \<Rightarrow> string) \<Rightarrow> CausalGraph \<Rightarrow> datetime \<Rightarrow> string \<Rightarrow> NodeType \<Rightarrow> real \<Rightarrow>
   (string \<times> pyval) list option \<Rightarrow> string option \<Rightarrow> CausalGraph \<times> string" where
  "add_node md5 g now content node_type confidence metadata node_id =
     (let node_id = (case node_id of
                       None \<Rightarrow> generate_node_id md5 content node_type
                     | Some i \<Rightarrow> i);
          node = \<lparr>cn_node_id = node_id,
                  cn_node_type = node_type,
                  cn_content = content,
                  cn_confidence = confidence,
                  cn_metadata = or_empty metadata,
                  cn_timestamp = now\<rparr>
      in (g\<lparr>cg_graph := nx_add_node (cg_graph g) node_id (node_to_dict node)\<rparr>, node_id))"

definition add_edge ::
  "CausalGraph \<Rightarrow> string \<Rightarrow> string \<Rightarrow> EdgeType \<Rightarrow> real \<Rightarrow> CausalStrength \<Rightarrow>
   string list option \<Rightarrow> string \<Rightarrow> (string \<times> pyval) list option \<Rightarrow>
   CausalGraph \<times> (error + string \<times> string)" where
  "add_edge g source target edge_type confidence causal_strength evidence_refs
            reasoning_type metadata =
     (if \<not> nx_has_node (cg_graph g) source
      then (g, Inl (ValueError (Source_not_in_graph source)))
      else if \<not> nx_has_node (cg_graph g) target
      then (g, Inl (ValueError (Target_not_in_graph target)))
      else
        (let edge = \<lparr>ce_source = source,
                     ce_target = target,
                     ce_edge_type = edge_type,
                     ce_confidence = confidence,
                     ce_causal_strength = causal_strength,
                     ce_evidence_refs = or_empty evidence_refs,
                     ce_reasoning_type = reasoning_type,
                     ce_metadata = or_empty metadata\<rparr>
         in (g\<lparr>cg_graph := nx_add_edge (cg_graph g) source target (edge_to_dict edge)\<rparr>,
             Inr (source, target))))"

definition get_node :: "CausalGraph \<Rightarrow> string \<Rightarrow> attrs option" where
  "get_node g node_id = map_option node_attr (map_of (cg_graph g) node_id)"

definition get_edge :: "CausalGraph \<Rightarrow> string \<Rightarrow> string \<Rightarrow> attrs option" where
  "get_edge g source target =
     (case map_of (cg_graph g) source of
        None \<Rightarrow> None
      | Some e \<Rightarrow> map_of (succ e) target)"

definition find_nodes_by_type :: "CausalGraph \<Rightarrow> NodeType \<Rightarrow> string list" where
  "find_nodes_by_type g node_type =
     map fst (filter (\<lambda>(node_id, data). data ''node_type'' = Some (PStr (node_type_value node_type)))
                (nx_nodes_data (cg_graph g)))"

subsection \<open>Serialization\<close>

record document =
  d_graph_id :: string
  d_created_at :: string
  d_metadata :: attrs
  d_nodes :: "attrs list"
  d_edges :: "attrs list"

definition to_dict :: "CausalGraph \<Rightarrow> document" where
  "to_dict g =
     \<lparr>d_graph_id = cg_graph_id g,
      d_created_at = cg_created_at g,
      d_metadata = cg_metadata g,
      d_nodes = map (\<lambda>(node_id, data). [''id'' \<mapsto> PStr node_id] ++ data)
                  (nx_nodes_data (cg_graph g)),
      d_edges = map (\<lambda>(u, v, data). [''source'' \<mapsto> PStr u, ''target'' \<mapsto> PStr v] ++ data)
                  (nx_edges_data (cg_graph g))\<rparr>"

text \<open>
  \<open>d.pop(key)\<close> for a key that holds a node identifier. Node identifiers are strings
  throughout this model; a document with another kind of value under \<open>id\<close>, \<open>source\<close> or
  \<open>target\<close> is outside it.
\<close>

definition pop_str :: "string \<Rightarrow> attrs \<Rightarrow> error + string \<times> attrs" where
  "pop_str key d =
     (case d key of
        None \<Rightarrow> Inl (KeyError key)
      | Some (PStr s) \<Rightarrow> Inr (s, d(key := None))
      | Some _ \<Rightarrow> Inl Not_modelled)"

text \<open>
  The two loops of \<open>from_dict\<close>. Passing the remaining items as keyword arguments raises
  \<open>TypeError\<close> when one of them is named like a positional parameter of the networkx
  method.
\<close>

fun add_nodes_from :: "DiGraph \<Rightarrow> attrs list \<Rightarrow> error + DiGraph" where
  "add_nodes_from G [] = Inr G"
| "add_nodes_from G (node_data # rest) =
     (case pop_str ''id'' node_data of
        Inl err \<Rightarrow> Inl err
      | Inr (node_id, node_data') \<Rightarrow>
          if node_data' ''self'' \<noteq> None \<or> node_data' ''node_for_adding'' \<noteq> None
          then Inl TypeError
          else add_nodes_from (nx_add_node G node_id node_data') rest)"

fun add_edges_from :: "DiGraph \<Rightarrow> attrs list \<Rightarrow> error + DiGraph" where
  "add_edges_from G [] = Inr G"
| "add_edges_from G (edge_data # rest) =
     (case pop_str ''source'' edge_data of
        Inl err \<Rightarrow> Inl err
      | Inr (source, edge_data') \<Rightarrow>
          (case pop_str ''target'' edge_data' of
             Inl err \<Rightarrow> Inl err
           | Inr (target, edge_data'') \<Rightarrow>
               if edge_data'' ''self'' \<noteq> None \<or> edge_data'' ''u_of_edge'' \<noteq> None \<or>
                  edge_data'' ''v_of_edge'' \<noteq> None
               then Inl TypeError
               else add_edges_from (nx_add_edge G source target edge_data'') rest))"

definition from_dict ::
  "(string \<Rightarrow> string) \<Rightarrow> datetime \<Rightarrow> datetime \<Rightarrow> document \<Rightarrow> error + CausalGraph" where
  "from_dict md5 now_id now data =
     (let g0 = init_graph md5 now_id now (Some (d_graph_id data));
          g1 = g0\<lparr>cg_created_at := d_created_at data\<rparr>;
          g2 = g1\<lparr>cg_metadata := d_metadata data\<rparr>
      in case add_nodes_from (cg_graph g2) (d_nodes data) of
           Inl err \<Rightarrow> Inl err
         | Inr G \<Rightarrow>
             (case add_edges_from G (d_edges data) of
                Inl err \<Rightarrow> Inl err
              | Inr G' \<Rightarrow> Inr (g2\<lparr>cg_graph := G'\<rparr>)))"

subsection \<open>Terms of the claim about serialization\<close>

text \<open>
  The graphs the operations above produce: the graph identifier is not empty, no node
  identifier occurs twice, no successor occurs twice under one node, every successor is a
  node, no node attribute is named \<open>id\<close>, and an edge's \<open>source\<close> and \<open>target\<close>
  attributes, where present, are its endpoints. No attribute is named like a positional
  parameter of the networkx method that stores it.
\<close>

definition node_ok :: "attrs \<Rightarrow> bool" where
  "node_ok a = (a ''id'' = None \<and> a ''self'' = None \<and> a ''node_for_adding'' = None)"

definition edge_ok :: "string \<Rightarrow> string \<Rightarrow> attrs \<Rightarrow> bool" where
  "edge_ok u v d =
     ((d ''source'' = None \<or> d ''source'' = Some (PStr u)) \<and>
      (d ''target'' = None \<or> d ''target'' = Some (PStr v)) \<and>
      d ''self'' = None \<and> d ''u_of_edge'' = None \<and> d ''v_of_edge'' = None)"

definition well_formed :: "CausalGraph \<Rightarrow> bool" where
  "well_formed g =
     (cg_graph_id g \<noteq> [] \<and>
      distinct (map fst (cg_graph g)) \<and>
      list_all (\<lambda>(u, e). node_ok (node_attr e) \<and>
                  distinct (map fst (succ e)) \<and>
                  list_all (\<lambda>(v, d). nx_has_node (cg_graph g) v \<and> edge_ok u v d) (succ e))
        (cg_graph g))"

text \<open>
  An edge's attribute dictionary without its \<open>source\<close> and \<open>target\<close> entries, and the
  graph in which every edge carries such a dictionary.
\<close>

definition without_endpoints :: "attrs \<Rightarrow> attrs" where
  "without_endpoints d = d(''source'' := None, ''target'' := None)"

definition rebuilt :: "string \<times> nx_entry \<Rightarrow> string \<times> nx_entry" where
  "rebuilt = (\<lambda>(n, e). (n, \<lparr>node_attr = node_attr e,
                              succ = map (\<lambda>(v, d). (v, without_endpoints d)) (succ e)\<rparr>))"

definition reloaded :: "CausalGraph \<Rightarrow> CausalGraph" where
  "reloaded g = g\<lparr>cg_graph := map rebuilt (cg_graph g)\<rparr>"

text \<open>The entries \<open>to_dict\<close> writes for a node and for an edge leaving \<open>u\<close>.\<close>

definition node_entry :: "string \<times> nx_entry \<Rightarrow> attrs" where
  "node_entry = (\<lambda>(n, e). [''id'' \<mapsto> PStr n] ++ node_attr e)"

definition edge_entry :: "string \<Rightarrow> string \<times> attrs \<Rightarrow> attrs" where
  "edge_entry u = (\<lambda>(v, d). [''source'' \<mapsto> PStr u, ''target'' \<mapsto> PStr v] ++ d)"

text \<open>A node entry with its successors removed, as \<open>from_dict\<close> has it after its first loop.\<close>

definition emptied :: "string \<times> nx_entry \<Rightarrow> string \<times> nx_entry" where
  "emptied = (\<lambda>(n, e). (n, \<lparr>node_attr = node_attr e, succ = []\<rparr>))"

text \<open>The conditions of \<open>well_formed\<close> on one entry, for a given set of node identifiers.\<close>

definition entry_ok :: "string set \<Rightarrow> string \<times> nx_entry \<Rightarrow> bool" where
  "entry_ok K = (\<lambda>(u, e). node_ok (node_attr e) \<and> distinct (map fst (succ e)) \<and>
                    list_all (\<lambda>(v, d). v \<in> K \<and> edge_ok u v d) (succ e))"

section \<open>Bias detector (causal/bias_detector.py)\<close>

text \<open>
  Python's built-in \<open>str\<close>, \<open>str.lower\<close> and \<open>int\<close> are parameters of the model.
  \<open>int\<close> raises on a value it cannot convert.
\<close>

record builtins =
  py_str :: "pyval \<Rightarrow> string"
  py_lower :: "string \<Rightarrow> string"
  py_int :: "pyval \<Rightarrow> error + int"

text \<open>
  The numeric value of a Python value in a comparison with a float: floats, integers and
  booleans compare by value, anything else raises \<open>TypeError\<close>.
\<close>

fun py_num :: "pyval \<Rightarrow> real option" where
  "py_num (PFloat r) = Some r"
| "py_num (PInt i) = Some (of_int i)"
| "py_num (PBool b) = Some (if b then 1 else 0)"
| "py_num _ = None"

text \<open>\<open>max(a, b)\<close> keeps \<open>a\<close> unless \<open>b > a\<close>.\<close>

definition py_max :: "real \<Rightarrow> pyval \<Rightarrow> error + real" where
  "py_max a b = (case py_num b of None \<Rightarrow> Inl TypeError
                 | Some r \<Rightarrow> Inr (if r > a then r else a))"

text \<open>\<open>a in c\<close> on strings: \<open>a\<close> occurs in \<open>c\<close> as a contiguous substring.\<close>

fun contains :: "string \<Rightarrow> string \<Rightarrow> bool" where
  "contains [] a = (a = [])"
| "contains (c # cs) a = (take (length a) (c # cs) = a \<or> contains cs a)"

definition SENSITIVE_ATTRIBUTES :: "string list" where
  "SENSITIVE_ATTRIBUTES =
     [''age'', ''gender'', ''sex'', ''race'', ''ethnicity'', ''socioeconomic_status'']"

record demographic_usage =
  used_explicitly :: bool
  used_attributes :: "string list"
  impact_score :: real

text \<open>The inner loop of \<open>_check_demographic_usage\<close>, over the sensitive attributes.\<close>

fun scan_attributes ::
  "builtins \<Rightarrow> attrs \<Rightarrow> string \<Rightarrow> attrs \<Rightarrow> demographic_usage \<Rightarrow> string list \<Rightarrow>
   error + demographic_usage" where
  "scan_attributes B metadata content node_data st [] = Inr st"
| "scan_attributes B metadata content node_data st (attr # rest) =
     (let attr_val = py_lower B (py_str B (case metadata attr of None \<Rightarrow> PStr [] | Some v \<Rightarrow> v))
      in if attr_val \<noteq> [] \<and> contains content attr_val
         then (case py_max (impact_score st)
                      (case node_data ''confidence'' of None \<Rightarrow> PFloat 0.0 | Some c \<Rightarrow> c) of
                 Inl err \<Rightarrow> Inl err
               | Inr impact \<Rightarrow>
                   scan_attributes B metadata content node_data
                     \<lparr>used_explicitly = True,
                      used_attributes = used_attributes st @ [attr],
                      impact_score = impact\<rparr> rest)
         else scan_attributes B metadata content node_data st rest)"

text \<open>The outer loop, over the nodes; \<open>.lower()\<close> exists on strings only.\<close>

fun scan_nodes ::
  "builtins \<Rightarrow> attrs \<Rightarrow> demographic_usage \<Rightarrow> (string \<times> attrs) list \<Rightarrow>
   error + demographic_usage" where
  "scan_nodes B metadata st [] = Inr st"
| "scan_nodes B metadata st ((node_id, node_data) # rest) =
     (case (case node_data ''content'' of None \<Rightarrow> Inr (py_lower B [])
            | Some (PStr s) \<Rightarrow> Inr (py_lower B s)
            | Some _ \<Rightarrow> Inl AttributeError) of
        Inl err \<Rightarrow> Inl err
      | Inr content \<Rightarrow>
          (case scan_attributes B metadata content node_data st SENSITIVE_ATTRIBUTES of
             Inl err \<Rightarrow> Inl err
           | Inr st' \<Rightarrow> scan_nodes B metadata st' rest))"

text \<open>
  \<open>_check_demographic_usage\<close>. The source returns \<open>list(set(used_attributes))\<close>, a list
  without repetitions in an order Python does not fix; the model keeps the list as
  collected, to be read as the set of its elements.
\<close>

definition check_demographic_usage ::
  "builtins \<Rightarrow> CausalGraph \<Rightarrow> attrs \<Rightarrow> error + demographic_usage" where
  "check_demographic_usage B g metadata =
     scan_nodes B metadata
       \<lparr>used_explicitly = False, used_attributes = [], impact_score = 0.0\<rparr>
       (nx_nodes_data (cg_graph g))"

text \<open>
  The loop of \<open>_check_premature_closure\<close> over the diagnosis nodes. \<open>if node:\<close> skips a
  node that is unknown or whose attribute dictionary is empty.
\<close>

fun max_diagnosis_confidence :: "CausalGraph \<Rightarrow> real \<Rightarrow> string list \<Rightarrow> error + real" where
  "max_diagnosis_confidence g max_diag_conf [] = Inr max_diag_conf"
| "max_diagnosis_confidence g max_diag_conf (nid # rest) =
     (case get_node g nid of
        None \<Rightarrow> max_diagnosis_confidence g max_diag_conf rest
      | Some node \<Rightarrow>
          if node = Map.empty then max_diagnosis_confidence g max_diag_conf rest
          else (case py_max max_diag_conf
                       (case node ''confidence'' of None \<Rightarrow> PFloat 0.0 | Some c \<Rightarrow> c) of
                  Inl err \<Rightarrow> Inl err
                | Inr m \<Rightarrow> max_diagnosis_confidence g m rest))"

definition check_premature_closure :: "CausalGraph \<Rightarrow> error + bool" where
  "check_premature_closure g =
     (let evidence_nodes = find_nodes_by_type g EVIDENCE;
          diagnosis_nodes = find_nodes_by_type g DIAGNOSIS
      in if diagnosis_nodes = [] then Inr False
         else (case max_diagnosis_confidence g 0.0 diagnosis_nodes of
                 Inl err \<Rightarrow> Inl err
               | Inr max_diag_conf \<Rightarrow>
                   if max_diag_conf > 0.8 \<and> length evidence_nodes < 2 then Inr True
                   else Inr False))"

record suggestion =
  sg_attribute :: string
  sg_original :: pyval
  sg_counterfactual :: pyval

definition generate_counterfactual_suggestions ::
  "builtins \<Rightarrow> attrs \<Rightarrow> error + suggestion list" where
  "generate_counterfactual_suggestions B metadata =
     (let suggestions1 =
            (case metadata ''gender'' of
               None \<Rightarrow> []
             | Some gender \<Rightarrow>
                 (let curr = py_lower B (py_str B gender)
                  in if curr \<in> set [''male'', ''m'']
                     then [\<lparr>sg_attribute = ''gender'', sg_original = PStr curr,
                            sg_counterfactual = PStr ''female''\<rparr>]
                     else if curr \<in> set [''female'', ''f'']
                     then [\<lparr>sg_attribute = ''gender'', sg_original = PStr curr,
                            sg_counterfactual = PStr ''male''\<rparr>]
                     else []))
      in case metadata ''age'' of
           None \<Rightarrow> Inr suggestions1
         | Some age \<Rightarrow>
             (case py_int B age of
                Inl err \<Rightarrow> Inl err
              | Inr curr_age \<Rightarrow>
                  if curr_age < 18
                  then Inr (suggestions1 @ [\<lparr>sg_attribute = ''age'', sg_original = PInt curr_age,
                                              sg_counterfactual = PInt 35\<rparr>])
                  else if curr_age > 65
                  then Inr (suggestions1 @ [\<lparr>sg_attribute = ''age'', sg_original = PInt curr_age,
                                              sg_counterfactual = PInt 45\<rparr>])
                  else Inr suggestions1))"

record bias_details =
  det_demographic_usage :: "demographic_usage option"
  det_premature_closure :: "bool option"

record BiasReport =
  has_bias :: bool
  bias_score :: real
  detected_types :: "string list"
  details :: bias_details
  counterfactuals :: "suggestion list"
  recommendations :: "string list"

definition check_graph :: "builtins \<Rightarrow> CausalGraph \<Rightarrow> attrs \<Rightarrow> error + BiasReport" where
  "check_graph B graph input_metadata =
     (case check_demographic_usage B graph input_metadata of
        Inl err \<Rightarrow> Inl err
      | Inr usage \<Rightarrow>
          (let high = (used_explicitly usage \<and> impact_score usage > 0.7);
               detected_types1 = (if high then [''high_demographic_impact''] else []);
               recommendations1 =
                 (if high then [''Verify demographic factors are clinically relevant''] else []);
               details1 = \<lparr>det_demographic_usage =
                              (if used_explicitly usage then Some usage else None),
                            det_premature_closure = None\<rparr>
           in case check_premature_closure graph of
                Inl err \<Rightarrow> Inl err
              | Inr closure \<Rightarrow>
                  (let detected_types =
                         detected_types1 @ (if closure then [''premature_closure''] else []);
                       details2 =
                         (if closure then details1\<lparr>det_premature_closure := Some True\<rparr>
                          else details1);
                       recommendations2 =
                         recommendations1 @
                         (if closure
                          then [''Consider alternative diagnoses (premature closure detected)'']
                          else [])
                   in case generate_counterfactual_suggestions B input_metadata of
                        Inl err \<Rightarrow> Inl err
                      | Inr suggestions \<Rightarrow>
                          (let has = (length detected_types > 0);
                               score = (if has
                                        then 0.5 + (0.1 * real (length detected_types))
                                        else 0.0)
                           in Inr \<lparr>has_bias = has,
                                   bias_score = min 1.0 score,
                                   detected_types = detected_types,
                                   details = details2,
                                   counterfactuals = suggestions,
                                   recommendations = recommendations2\<rparr>))))"

subsection \<open>Terms of the claim about premature closure\<close>

text \<open>
  The nodes of a given type are the entries of the graph whose \<open>node_type\<close> attribute
  is that type's name; the confidence of a node is its \<open>confidence\<close> attribute read as a
  number, 0.0 when the attribute is absent.
\<close>

definition nodes_of_type :: "string \<Rightarrow> CausalGraph \<Rightarrow> attrs list" where
  "nodes_of_type t g =
     filter (\<lambda>node. node ''node_type'' = Some (PStr t))
       (map (\<lambda>(nid, e). node_attr e) (cg_graph g))"

definition node_confidence :: "attrs \<Rightarrow> real" where
  "node_confidence node =
     (case node ''confidence'' of
        None \<Rightarrow> 0.0
      | Some (PFloat r) \<Rightarrow> r
      | Some (PInt i) \<Rightarrow> of_int i
      | Some (PBool b) \<Rightarrow> (if b then 1 else 0)
      | Some _ \<Rightarrow> 0.0)"

text \<open>
  The inputs on which no operation of \<open>check_graph\<close> raises: every node's content is
  absent or a string and its confidence absent or a number, and \<open>int\<close> converts the
  case's age when there is one.
\<close>

definition well_typed_node :: "attrs \<Rightarrow> bool" where
  "well_typed_node node =
     ((case node ''content'' of None \<Rightarrow> True | Some (PStr s) \<Rightarrow> True | Some _ \<Rightarrow> False) \<and>
      (case node ''confidence'' of
         None \<Rightarrow> True
       | Some (PFloat r) \<Rightarrow> True
       | Some (PInt i) \<Rightarrow> True
       | Some (PBool b) \<Rightarrow> True
       | Some _ \<Rightarrow> False))"

definition well_typed_nodes :: "CausalGraph \<Rightarrow> bool" where
  "well_typed_nodes g = list_all (\<lambda>(nid, e). well_typed_node (node_attr e)) (cg_graph g)"

definition age_converts :: "builtins \<Rightarrow> attrs \<Rightarrow> bool" where
  "age_converts B metadata =
     (case metadata ''age'' of None \<Rightarrow> True
      | Some age \<Rightarrow> (case py_int B age of Inl err \<Rightarrow> False | Inr i \<Rightarrow> True))"

text \<open>The confidences the loop of \<open>_check_premature_closure\<close> reads, in its order.\<close>

definition diagnosis_confidences :: "CausalGraph \<Rightarrow> real list" where
  "diagnosis_confidences g =
     map (\<lambda>nid. case get_node g nid of None \<Rightarrow> 0.0 | Some node \<Rightarrow> node_confidence node)
       (find_nodes_by_type g DIAGNOSIS)"

section \<open>Properties of the confidence scorer\<close>


text \<open>
  C7. \<open>get_level\<close> maps a score to its band with the lower bound of each band
  inclusive: at least 0.80 is "high", from 0.60 up to but excluding 0.80 is "medium",
  from 0.40 up to but excluding 0.60 is "low", below 0.40 is "insufficient".
\<close>

theorem get_level_bands:
  assumes "0.80 \<le> a"
    and "0.60 \<le> b" and "b < 0.80"
    and "0.40 \<le> c" and "c < 0.60"
    and "d < 0.40"
  shows "get_level a = ''high'' \<and> get_level b = ''medium'' \<and>
         get_level c = ''low'' \<and> get_level d = ''insufficient''"
  using assms
  by (simp add: get_level_def THRESHOLD_HIGH_def THRESHOLD_MEDIUM_def THRESHOLD_LOW_def
      HIGH_def MEDIUM_def LOW_def INSUFFICIENT_def)

theorem get_level_bands_witness:
  "get_level 0.80 = ''high'' \<and> get_level 0.60 = ''medium'' \<and>
   get_level 0.40 = ''low'' \<and> get_level 0.30 = ''insufficient''"
  using get_level_bands [of "0.80" "0.60" "0.40" "0.30"] by simp

text \<open>
  C3. \<open>calculate\<close> raises \<open>ValueError\<close> (the spec's RangeError) as soon as one factor
  lies outside [0,1]; on factors inside [0,1] it returns exactly
  0.40 * evidence_quality + 0.30 * reasoning_coherence + 0.20 * llm_confidence +
  0.10 * context_match, and raising any single factor (the other three fixed) never
  lowers the result.
\<close>

theorem calculate_spec:
  assumes bad: "\<not> (0 \<le> a1 \<and> a1 \<le> 1) \<or> \<not> (0 \<le> a2 \<and> a2 \<le> 1) \<or>
                \<not> (0 \<le> a3 \<and> a3 \<le> 1) \<or> \<not> (0 \<le> a4 \<and> a4 \<le> 1)"
    and ok: "0 \<le> e \<and> e \<le> 1" "0 \<le> r \<and> r \<le> 1" "0 \<le> l \<and> l \<le> 1" "0 \<le> m \<and> m \<le> 1"
    and up: "0 \<le> lo" "lo \<le> hi" "hi \<le> 1"
  shows "(\<exists>v \<in> set [a1, a2, a3, a4]. \<not> (0 \<le> v \<and> v \<le> 1) \<and>
            calculate a1 a2 a3 a4 = Inl (ValueError (Factor_out_of_range v))) \<and>
         calculate e r l m = Inr (0.40 * e + 0.30 * r + 0.20 * l + 0.10 * m) \<and>
         (\<exists>x y. calculate lo r l m = Inr x \<and> calculate hi r l m = Inr y \<and> x \<le> y) \<and>
         (\<exists>x y. calculate e lo l m = Inr x \<and> calculate e hi l m = Inr y \<and> x \<le> y) \<and>
         (\<exists>x y. calculate e r lo m = Inr x \<and> calculate e r hi m = Inr y \<and> x \<le> y) \<and>
         (\<exists>x y. calculate e r l lo = Inr x \<and> calculate e r l hi = Inr y \<and> x \<le> y)"
proof -
  have raised: "\<exists>v \<in> set [a1, a2, a3, a4]. \<not> (0 \<le> v \<and> v \<le> 1) \<and>
            calculate a1 a2 a3 a4 = Inl (ValueError (Factor_out_of_range v))"
    using bad by (auto simp: calculate_def)
  have val: "calculate p q s t = Inr (0.40 * p + 0.30 * q + 0.20 * s + 0.10 * t)"
    if "0 \<le> p \<and> p \<le> 1" "0 \<le> q \<and> q \<le> 1" "0 \<le> s \<and> s \<le> 1" "0 \<le> t \<and> t \<le> 1"
    for p q s t
    using that
    by (simp add: calculate_def W_evidence_quality_def W_reasoning_coherence_def
        W_llm_confidence_def W_context_match_def)
  have lo: "0 \<le> lo \<and> lo \<le> 1" and hi: "0 \<le> hi \<and> hi \<le> 1"
    using up by auto
  have m1: "\<exists>x y. calculate lo r l m = Inr x \<and> calculate hi r l m = Inr y \<and> x \<le> y"
    using val [OF lo ok(2) ok(3) ok(4)] val [OF hi ok(2) ok(3) ok(4)] up by simp
  have m2: "\<exists>x y. calculate e lo l m = Inr x \<and> calculate e hi l m = Inr y \<and> x \<le> y"
    using val [OF ok(1) lo ok(3) ok(4)] val [OF ok(1) hi ok(3) ok(4)] up by simp
  have m3: "\<exists>x y. calculate e r lo m = Inr x \<and> calculate e r hi m = Inr y \<and> x \<le> y"
    using val [OF ok(1) ok(2) lo ok(4)] val [OF ok(1) ok(2) hi ok(4)] up by simp
  have m4: "\<exists>x y. calculate e r l lo = Inr x \<and> calculate e r l hi = Inr y \<and> x \<le> y"
    using val [OF ok(1) ok(2) ok(3) lo] val [OF ok(1) ok(2) ok(3) hi] up by simp
  from raised val [OF ok] m1 m2 m3 m4 show ?thesis by blast
qed

theorem calculate_spec_witness:
  "calculate 0.5 1.5 0.5 0.5 = Inl (ValueError (Factor_out_of_range 1.5)) \<and>
   calculate 0.8 0.9 0.7 0.85 = Inr (0.40 * 0.8 + 0.30 * 0.9 + 0.20 * 0.7 + 0.10 * 0.85) \<and>
   (\<exists>x y. calculate 0.2 0.9 0.7 0.85 = Inr x \<and> calculate 0.6 0.9 0.7 0.85 = Inr y \<and> x \<le> y) \<and>
   (\<exists>x y. calculate 0.8 0.2 0.7 0.85 = Inr x \<and> calculate 0.8 0.6 0.7 0.85 = Inr y \<and> x \<le> y) \<and>
   (\<exists>x y. calculate 0.8 0.9 0.2 0.85 = Inr x \<and> calculate 0.8 0.9 0.6 0.85 = Inr y \<and> x \<le> y) \<and>
   (\<exists>x y. calculate 0.8 0.9 0.7 0.2 = Inr x \<and> calculate 0.8 0.9 0.7 0.6 = Inr y \<and> x \<le> y)"
  using calculate_spec [of "0.5" "1.5" "0.5" "0.5" "0.8" "0.9" "0.7" "0.85" "0.2" "0.6"]
  by simp




section \<open>Properties of the vault\<close>

lemma get_last_hash_None:
  "list_all (\<lambda>r. prev r = None) table \<Longrightarrow> get_last_hash key prev table = None"
proof -
  assume all: "list_all (\<lambda>r. prev r = None) table"
  have "order_by_id_desc_first key table = Some r \<Longrightarrow> r \<in> set table" for r
    by (induction table arbitrary: r) (auto split: option.splits if_splits)
  with all show ?thesis
    by (auto simp: get_last_hash_def list_all_iff split: option.splits)
qed

definition unlinked :: "vault \<Rightarrow> bool" where
  "unlinked v = list_all (\<lambda>h. h = None) (concat (prev_hashes v))"

lemma unlinked_iff:
  "unlinked v \<longleftrightarrow>
     list_all (\<lambda>r. in_prev_hash r = None) (inputs v) \<and>
     list_all (\<lambda>r. ae_prev_hash r = None) (agent_executions v) \<and>
     list_all (\<lambda>r. cs_prev_hash r = None) (causal_steps v) \<and>
     list_all (\<lambda>r. pc_prev_hash r = None) (policy_checks v) \<and>
     list_all (\<lambda>r. out_prev_hash r = None) (outputs v)"
  by (auto simp add: unlinked_def prev_hashes_def list_all_iff)

lemma unlinked_perform: "unlinked v \<Longrightarrow> unlinked (fst (perform sha js v c))"
proof (cases c)
  case (Log_input now source content metadata)
  assume "unlinked v"
  then show ?thesis
    by (simp add: Log_input unlinked_iff log_input_def Let_def get_last_hash_None)
next
  case (Log_agent_execution now input_id agent_id agent_input agent_output tool_calls duration_ms)
  assume "unlinked v"
  then show ?thesis
    by (simp add: Log_agent_execution unlinked_iff log_agent_execution_def Let_def
        get_last_hash_None)
next
  case (Log_causal_step now execution_id premise conclusion confidence evidence_refs rt)
  assume "unlinked v"
  then show ?thesis
    by (simp add: Log_causal_step unlinked_iff log_causal_step_def Let_def get_last_hash_None)
next
  case (Log_policy_check now execution_id policy_name result details violations)
  assume "unlinked v"
  then show ?thesis
    by (simp add: Log_policy_check unlinked_iff log_policy_check_def Let_def
        get_last_hash_None)
next
  case (Log_output now execution_id conclusion confidence risk_flags recommendations)
  assume "unlinked v"
  then show ?thesis
    by (simp add: Log_output unlinked_iff log_output_def Let_def get_last_hash_None)
qed

lemma unlinked_run: "unlinked v \<Longrightarrow> unlinked (run sha js v calls)"
  by (induction calls arbitrary: v) (simp_all add: unlinked_perform)

text \<open>
  At the smallest history that shows it: two \<open>log_input\<close> calls with contents of
  different digests on an empty vault store two rows, and the second row's \<open>prev_hash\<close>
  is \<open>None\<close>, as the first row's is.
\<close>

lemma log_input_twice:
  assumes "sha (js (PDict [(''content'', PStr c1)])) \<noteq> sha (js (PDict [(''content'', PStr c2)]))"
  shows "\<exists>r1 r2. inputs (run sha js empty_vault
                     [Log_input t1 s1 c1 m1, Log_input t2 s2 c2 m2]) = [r1, r2] \<and>
           in_content r1 = c1 \<and> in_content r2 = c2 \<and>
           in_prev_hash r1 = None \<and> in_prev_hash r2 = None"
  using assms
  by (simp add: log_input_def Let_def empty_vault_def compute_hash_def get_last_hash_def
      autoincrement_def)

text \<open>
  C1 (the code departs from the claim). Whatever is written to a vault that starts empty,
  in whatever order, every \<open>prev_hash\<close> column of every table stays \<open>None\<close>: the first
  row of a table finds no predecessor, and every later row copies the \<open>prev_hash\<close>
  column of its predecessor instead of a hash of that predecessor. The second of two
  writes of one kind therefore never carries a hash derived from the first, and no
  recomputation of the chain can notice that the first row's content was altered.
\<close>

theorem prev_hash_always_None:
  "list_all (\<lambda>h. h = None) (concat (prev_hashes (run sha js empty_vault calls)))"
proof -
  have "unlinked empty_vault"
    by (simp add: unlinked_def prev_hashes_def empty_vault_def)
  then have "unlinked (run sha js empty_vault calls)"
    by (rule unlinked_run)
  then show ?thesis by (simp add: unlinked_def)
qed

lemma content_hashes_perform:
  "set (map in_content_hash (inputs v))
     \<subseteq> set (map in_content_hash (inputs (fst (perform sha js v c))))"
proof (cases c)
  case (Log_input now source content metadata)
  then show ?thesis by (auto simp: log_input_def Let_def)
next
  case (Log_agent_execution now input_id agent_id agent_input agent_output tool_calls duration_ms)
  then show ?thesis by (simp add: log_agent_execution_def Let_def)
next
  case (Log_causal_step now execution_id premise conclusion confidence evidence_refs rt)
  then show ?thesis by (simp add: log_causal_step_def Let_def)
next
  case (Log_policy_check now execution_id policy_name result dets violations)
  then show ?thesis by (simp add: log_policy_check_def Let_def)
next
  case (Log_output now execution_id conclusion confidence risk_flags recs)
  then show ?thesis by (simp add: log_output_def Let_def)
qed

lemma content_hashes_run:
  "set (map in_content_hash (inputs v))
     \<subseteq> set (map in_content_hash (inputs (run sha js v calls)))"
proof (induction calls arbitrary: v)
  case Nil
  show ?case by simp
next
  case (Cons c calls)
  have "set (map in_content_hash (inputs v))
          \<subseteq> set (map in_content_hash (inputs (fst (perform sha js v c))))"
    by (rule content_hashes_perform)
  also have "\<dots> \<subseteq> set (map in_content_hash (inputs (run sha js (fst (perform sha js v c)) calls)))"
    by (rule Cons.IH)
  finally show ?case by simp
qed

lemma content_hash_after_log_input:
  "sha (js (PDict [(''content'', PStr c)]))
     \<in> set (map in_content_hash (inputs (fst (log_input sha js v t s c m))))"
  by (simp add: log_input_def Let_def compute_hash_def)

lemma log_input_known_hash:
  assumes "sha (js (PDict [(''content'', PStr c)])) \<in> set (map in_content_hash (inputs v))"
  shows "log_input sha js v t s c m = (v, Inl IntegrityError)"
  using assms by (simp add: log_input_def Let_def compute_hash_def)

text \<open>
  C8 (amended). For an execution id that no row of \<open>agent_executions\<close> carries,
  \<open>get_reasoning_trail\<close> raises \<open>ValueError\<close> ("Execution ... not found", the spec's
  NotFoundError) when the id lies in the signed 64-bit range of SQLite's integers, and
  \<open>OverflowError\<close> when it lies outside.
\<close>

theorem get_reasoning_trail_unknown:
  assumes "execution_id \<notin> set (map ae_id (agent_executions v))"
  shows "get_reasoning_trail v execution_id =
           (if - 9223372036854775808 \<le> execution_id \<and> execution_id \<le> 9223372036854775807
            then Inl (ValueError (Execution_not_found execution_id))
            else Inl OverflowError)"
proof -
  have "find (\<lambda>e. ae_id e = execution_id) (agent_executions v) = None"
    using assms by (auto simp: find_None_iff)
  then show ?thesis by (simp add: get_reasoning_trail_def sqlite_integer_def)
qed

theorem get_reasoning_trail_unknown_witness:
  "10 \<notin> set (map ae_id (agent_executions
      (fst (log_agent_execution empty_vault ''t'' 1 ''final_agent'' ''in'' ''out'' None None)))) \<and>
   get_reasoning_trail
      (fst (log_agent_execution empty_vault ''t'' 1 ''final_agent'' ''in'' ''out'' None None)) 10
     = Inl (ValueError (Execution_not_found 10)) \<and>
   get_reasoning_trail
      (fst (log_agent_execution empty_vault ''t'' 1 ''final_agent'' ''in'' ''out'' None None))
      (- 9223372036854775809)
     = Inl OverflowError"
proof -
  let ?v = "fst (log_agent_execution empty_vault ''t'' 1 ''final_agent'' ''in'' ''out'' None None)"
  have ids: "map ae_id (agent_executions ?v) = [1]"
    by (simp add: log_agent_execution_def Let_def empty_vault_def autoincrement_def
        sqlite_integer_def)
  have h: "10 \<notin> set (map ae_id (agent_executions ?v))"
    unfolding ids by simp
  have h': "- 9223372036854775809 \<notin> set (map ae_id (agent_executions ?v))"
    unfolding ids by simp
  have a: "get_reasoning_trail ?v 10 = Inl (ValueError (Execution_not_found 10))"
    using get_reasoning_trail_unknown [OF h] by simp
  have b: "get_reasoning_trail ?v (- 9223372036854775809) = Inl OverflowError"
    using get_reasoning_trail_unknown [OF h'] by simp
  from h a b show ?thesis by blast
qed

text \<open>
  The claim as written fails at the unknown id \<open>2^63\<close>: the lookup raises
  \<open>OverflowError\<close>, not the "not found" \<open>ValueError\<close>.
\<close>

theorem get_reasoning_trail_overflow_counterexample:
  "get_reasoning_trail empty_vault 9223372036854775808
     \<noteq> Inl (ValueError (Execution_not_found 9223372036854775808)) \<and>
   get_reasoning_trail empty_vault 9223372036854775808 = Inl OverflowError"
  by (simp add: get_reasoning_trail_def sqlite_integer_def)

lemma get_reasoning_trail_known:
  "execution_id \<in> set (map ae_id (agent_executions v)) \<Longrightarrow> sqlite_integer execution_id \<Longrightarrow>
   \<exists>t. get_reasoning_trail v execution_id = Inr t \<and> tr_execution_id t = execution_id"
proof -
  assume "execution_id \<in> set (map ae_id (agent_executions v))" and r: "sqlite_integer execution_id"
  then have "find (\<lambda>e. ae_id e = execution_id) (agent_executions v) \<noteq> None"
    by (auto simp: find_None_iff)
  with r show ?thesis
    by (auto simp: get_reasoning_trail_def Let_def)
qed

text \<open>
  C9. Once \<open>log_input\<close> has been called with some content, every later \<open>log_input\<close> call
  with the same content, whatever was written to the vault in between and whatever its
  source, metadata and time, raises \<open>IntegrityError\<close> and leaves the vault exactly as it
  found it: the vault never holds the same input content twice.
\<close>

theorem log_input_same_content_rejected:
  "snd (log_input sha js (run sha js (fst (log_input sha js v t1 s1 c m1)) calls) t2 s2 c m2)
     = Inl IntegrityError \<and>
   fst (log_input sha js (run sha js (fst (log_input sha js v t1 s1 c m1)) calls) t2 s2 c m2)
     = run sha js (fst (log_input sha js v t1 s1 c m1)) calls"
proof -
  let ?v1 = "fst (log_input sha js v t1 s1 c m1)"
  have "sha (js (PDict [(''content'', PStr c)])) \<in> set (map in_content_hash (inputs ?v1))"
    by (rule content_hash_after_log_input)
  then have "sha (js (PDict [(''content'', PStr c)]))
               \<in> set (map in_content_hash (inputs (run sha js ?v1 calls)))"
    using content_hashes_run by blast
  then have "log_input sha js (run sha js ?v1 calls) t2 s2 c m2
               = (run sha js ?v1 calls, Inl IntegrityError)"
    by (rule log_input_known_hash)
  then show ?thesis by simp
qed

section \<open>Properties of the causal graph\<close>

lemma keys_map_entry: "map fst (AList.map_entry k f xs) = map fst xs"
  by (induction xs) auto

lemma nx_has_node_iff: "nx_has_node G n \<longleftrightarrow> map_of G n \<noteq> None"
  by (simp add: nx_has_node_def map_of_eq_None_iff)

lemma keys_nx_add_node:
  "map fst (nx_add_node G n a) = (if nx_has_node G n then map fst G else map fst G @ [n])"
  by (simp add: nx_add_node_def keys_map_entry)

lemma map_of_nx_add_node_same:
  "map_of (nx_add_node G n a) n
     = Some (case map_of G n of
               None \<Rightarrow> \<lparr>node_attr = a, succ = []\<rparr>
             | Some e \<Rightarrow> e\<lparr>node_attr := node_attr e ++ a\<rparr>)"
proof (cases "map_of G n")
  case None
  then have "\<not> nx_has_node G n" by (simp add: nx_has_node_iff)
  with None show ?thesis by (simp add: nx_add_node_def map_add_def)
next
  case (Some e)
  then have "nx_has_node G n" by (simp add: nx_has_node_iff)
  with Some show ?thesis by (simp add: nx_add_node_def AList.map_of_map_entry)
qed

lemma nx_has_node_add_node_same: "nx_has_node (nx_add_node G n a) n"
  by (simp add: nx_has_node_iff map_of_nx_add_node_same)

lemma add_node_fresh_graph:
  "\<not> nx_has_node (cg_graph g) nid \<Longrightarrow>
   cg_graph (fst (add_node md5 g t content ty conf meta (Some nid)))
     = cg_graph g @ [(nid, \<lparr>node_attr = node_to_dict
         \<lparr>cn_node_id = nid, cn_node_type = ty, cn_content = content, cn_confidence = conf,
          cn_metadata = or_empty meta, cn_timestamp = t\<rparr>, succ = []\<rparr>)]"
  by (simp add: add_node_def Let_def nx_add_node_def)

text \<open>
  C2. When the source or the target identifier is not a node of the graph, \<open>add_edge\<close>
  raises \<open>ValueError\<close> (the spec's ReferenceError) and the graph after the call is the
  graph before it; in particular its node count and its edge count are unchanged.
\<close>

theorem add_edge_missing_endpoint:
  assumes "\<not> nx_has_node (cg_graph g) source \<or> \<not> nx_has_node (cg_graph g) target"
  shows "snd (add_edge g source target edge_type confidence causal_strength evidence_refs
                reasoning_type metadata)
           = Inl (ValueError (if \<not> nx_has_node (cg_graph g) source
                              then Source_not_in_graph source
                              else Target_not_in_graph target)) \<and>
         fst (add_edge g source target edge_type confidence causal_strength evidence_refs
                reasoning_type metadata) = g \<and>
         number_of_nodes (cg_graph (fst (add_edge g source target edge_type confidence
                causal_strength evidence_refs reasoning_type metadata)))
           = number_of_nodes (cg_graph g) \<and>
         number_of_edges (cg_graph (fst (add_edge g source target edge_type confidence
                causal_strength evidence_refs reasoning_type metadata)))
           = number_of_edges (cg_graph g)"
  using assms by (auto simp: add_edge_def)

theorem add_edge_missing_endpoint_witness:
  "\<forall>md5.
     \<not> nx_has_node (cg_graph (fst (add_node md5 (init_graph md5 ''t0'' ''t0'' (Some ''g1''))
            ''t1'' ''fever'' SYMPTOM 0.9 None (Some ''n1'')))) ''missing'' \<and>
     snd (add_edge (fst (add_node md5 (init_graph md5 ''t0'' ''t0'' (Some ''g1''))
            ''t1'' ''fever'' SYMPTOM 0.9 None (Some ''n1'')))
          ''n1'' ''missing'' CAUSES 0.8 MODERATE None ''symbolic'' None)
       = Inl (ValueError (Target_not_in_graph ''missing'')) \<and>
     number_of_nodes (cg_graph (fst (add_edge (fst (add_node md5
            (init_graph md5 ''t0'' ''t0'' (Some ''g1''))
            ''t1'' ''fever'' SYMPTOM 0.9 None (Some ''n1'')))
          ''n1'' ''missing'' CAUSES 0.8 MODERATE None ''symbolic'' None))) = 1 \<and>
     number_of_edges (cg_graph (fst (add_edge (fst (add_node md5
            (init_graph md5 ''t0'' ''t0'' (Some ''g1''))
            ''t1'' ''fever'' SYMPTOM 0.9 None (Some ''n1'')))
          ''n1'' ''missing'' CAUSES 0.8 MODERATE None ''symbolic'' None))) = 0"
proof
  fix md5 :: "string \<Rightarrow> string"
  define g where "g = fst (add_node md5 (init_graph md5 ''t0'' ''t0'' (Some ''g1''))
            ''t1'' ''fever'' SYMPTOM 0.9 None (Some ''n1''))"
  have G: "cg_graph g = [(''n1'', \<lparr>node_attr = node_to_dict \<lparr>cn_node_id = ''n1'',
      cn_node_type = SYMPTOM, cn_content = ''fever'', cn_confidence = 0.9,
      cn_metadata = [], cn_timestamp = ''t1''\<rparr>, succ = []\<rparr>)]"
    by (simp add: g_def add_node_def Let_def init_graph_def nx_add_node_def nx_has_node_def
        or_empty_def)
  have missing: "\<not> nx_has_node (cg_graph g) ''missing''"
    by (simp add: G nx_has_node_def)
  then have h: "\<not> nx_has_node (cg_graph g) ''n1'' \<or> \<not> nx_has_node (cg_graph g) ''missing''"
    by simp
  have n1: "nx_has_node (cg_graph g) ''n1''"
    by (simp add: G nx_has_node_def)
  have counts: "number_of_nodes (cg_graph g) = 1" "number_of_edges (cg_graph g) = 0"
    by (simp_all add: G number_of_nodes_def number_of_edges_def nx_edges_data_def)
  from add_edge_missing_endpoint [OF h, of CAUSES "0.8" MODERATE None "''symbolic''" None]
    missing n1 counts
  show "\<not> nx_has_node (cg_graph (fst (add_node md5 (init_graph md5 ''t0'' ''t0'' (Some ''g1''))
            ''t1'' ''fever'' SYMPTOM 0.9 None (Some ''n1'')))) ''missing'' \<and>
     snd (add_edge (fst (add_node md5 (init_graph md5 ''t0'' ''t0'' (Some ''g1''))
            ''t1'' ''fever'' SYMPTOM 0.9 None (Some ''n1'')))
          ''n1'' ''missing'' CAUSES 0.8 MODERATE None ''symbolic'' None)
       = Inl (ValueError (Target_not_in_graph ''missing'')) \<and>
     number_of_nodes (cg_graph (fst (add_edge (fst (add_node md5
            (init_graph md5 ''t0'' ''t0'' (Some ''g1''))
            ''t1'' ''fever'' SYMPTOM 0.9 None (Some ''n1'')))
          ''n1'' ''missing'' CAUSES 0.8 MODERATE None ''symbolic'' None))) = 1 \<and>
     number_of_edges (cg_graph (fst (add_edge (fst (add_node md5
            (init_graph md5 ''t0'' ''t0'' (Some ''g1''))
            ''t1'' ''fever'' SYMPTOM 0.9 None (Some ''n1'')))
          ''n1'' ''missing'' CAUSES 0.8 MODERATE None ''symbolic'' None))) = 0"
    unfolding g_def [symmetric] by simp
qed

text \<open>
  C10. Two \<open>add_node\<close> calls with the same content and type and no explicit identifier
  return the same identifier; the second call adds no node and leaves the order of the
  nodes as it was. After the first call the node carries the content, the confidence,
  the metadata and the timestamp of the first call; after the second it carries the
  confidence, the metadata and the timestamp of the second call in their place (the
  dictionary given as metadata, or the empty dictionary when none is given).
\<close>

theorem add_node_twice:
  "(case add_node md5 g t1 content node_type c1 m1 None of
      (g1, id1) \<Rightarrow>
        (case add_node md5 g1 t2 content node_type c2 m2 None of
           (g2, id2) \<Rightarrow>
             id2 = id1 \<and>
             length (cg_graph g2) = length (cg_graph g1) \<and>
             number_of_nodes (cg_graph g2) = number_of_nodes (cg_graph g1) \<and>
             map fst (cg_graph g2) = map fst (cg_graph g1) \<and>
             (\<exists>e1 e2. map_of (cg_graph g1) id1 = Some e1 \<and> map_of (cg_graph g2) id1 = Some e2 \<and>
                get_node g1 id1 = Some (node_attr e1) \<and> get_node g2 id1 = Some (node_attr e2) \<and>
                node_attr e1 ''content'' = Some (PStr content) \<and>
                node_attr e1 ''confidence'' = Some (PFloat c1) \<and>
                node_attr e1 ''metadata''
                  = Some (PDict (case m1 of None \<Rightarrow> [] | Some items \<Rightarrow> items)) \<and>
                node_attr e1 ''timestamp'' = Some (PStr t1) \<and>
                node_attr e2 ''content'' = Some (PStr content) \<and>
                node_attr e2 ''confidence'' = Some (PFloat c2) \<and>
                node_attr e2 ''metadata''
                  = Some (PDict (case m2 of None \<Rightarrow> [] | Some items \<Rightarrow> items)) \<and>
                node_attr e2 ''timestamp'' = Some (PStr t2))))"
proof -
  define n where "n = generate_node_id md5 content node_type"
  define d1 where "d1 = node_to_dict \<lparr>cn_node_id = n, cn_node_type = node_type,
      cn_content = content, cn_confidence = c1, cn_metadata = or_empty m1, cn_timestamp = t1\<rparr>"
  define d2 where "d2 = node_to_dict \<lparr>cn_node_id = n, cn_node_type = node_type,
      cn_content = content, cn_confidence = c2, cn_metadata = or_empty m2, cn_timestamp = t2\<rparr>"
  define G1 where "G1 = nx_add_node (cg_graph g) n d1"
  define G2 where "G2 = nx_add_node G1 n d2"
  have first: "add_node md5 g t1 content node_type c1 m1 None = (g\<lparr>cg_graph := G1\<rparr>, n)"
    by (simp add: add_node_def Let_def n_def d1_def G1_def)
  have second: "add_node md5 (g\<lparr>cg_graph := G1\<rparr>) t2 content node_type c2 m2 None
                  = (g\<lparr>cg_graph := G2\<rparr>, n)"
    by (simp add: add_node_def Let_def n_def d2_def G2_def)
  have has: "nx_has_node G1 n"
    by (simp add: G1_def nx_has_node_add_node_same)
  have keys: "map fst G2 = map fst G1"
    using has by (simp add: G2_def keys_nx_add_node)
  then have len: "length G2 = length G1"
    by (metis length_map)
  obtain e1 where e1: "map_of G1 n = Some e1"
    and a1: "node_attr e1 = (case map_of (cg_graph g) n of
               None \<Rightarrow> Map.empty | Some e \<Rightarrow> node_attr e) ++ d1"
    by (auto simp: G1_def map_of_nx_add_node_same split: option.splits)
  have e2: "map_of G2 n = Some (e1\<lparr>node_attr := node_attr e1 ++ d2\<rparr>)"
    by (simp add: G2_def map_of_nx_add_node_same e1)
  have v1: "node_attr e1 ''content'' = Some (PStr content)"
       "node_attr e1 ''confidence'' = Some (PFloat c1)"
       "node_attr e1 ''metadata'' = Some (PDict (case m1 of None \<Rightarrow> [] | Some items \<Rightarrow> items))"
       "node_attr e1 ''timestamp'' = Some (PStr t1)"
    by (simp_all add: a1 d1_def node_to_dict_def or_empty_def)
  have v2: "(node_attr e1 ++ d2) ''content'' = Some (PStr content)"
       "(node_attr e1 ++ d2) ''confidence'' = Some (PFloat c2)"
       "(node_attr e1 ++ d2) ''metadata''
          = Some (PDict (case m2 of None \<Rightarrow> [] | Some items \<Rightarrow> items))"
       "(node_attr e1 ++ d2) ''timestamp'' = Some (PStr t2)"
    by (simp_all add: d2_def node_to_dict_def or_empty_def)
  show ?thesis
    unfolding first second prod.case
    using keys len e1 e2 v1 v2
    by (simp add: number_of_nodes_def get_node_def)
qed

section \<open>Properties of serialization\<close>

lemma pop_id:
  assumes "a ''id'' = None"
  shows "pop_str ''id'' ([''id'' \<mapsto> PStr n] ++ a) = Inr (n, a)"
proof -
  have "([''id'' \<mapsto> PStr n] ++ a) ''id'' = Some (PStr n)"
    using assms by (simp add: map_add_def)
  moreover have "([''id'' \<mapsto> PStr n] ++ a)(''id'' := None) = a"
    using assms by (auto simp: map_add_def fun_eq_iff split: option.splits)
  ultimately show ?thesis by (simp add: pop_str_def)
qed

lemma add_nodes_from_entries:
  assumes "distinct (map fst H @ map fst R)"
    and "list_all (\<lambda>(n, e). node_ok (node_attr e)) R"
  shows "add_nodes_from H (map node_entry R)
           = Inr (H @ map (\<lambda>(n, e). (n, \<lparr>node_attr = node_attr e, succ = []\<rparr>)) R)"
  using assms
proof (induction R arbitrary: H)
  case Nil
  show ?case by simp
next
  case (Cons p R)
  obtain n e where p: "p = (n, e)" by (cases p)
  from Cons.prems p have ok: "node_ok (node_attr e)"
    and rest: "list_all (\<lambda>(n, e). node_ok (node_attr e)) R"
    and new: "\<not> nx_has_node H n"
    and dist: "distinct (map fst (H @ [(n, \<lparr>node_attr = node_attr e, succ = []\<rparr>)]) @ map fst R)"
    by (auto simp: nx_has_node_def)
  have pop: "pop_str ''id'' (node_entry (n, e)) = Inr (n, node_attr e)"
    using ok by (simp add: node_entry_def node_ok_def pop_id)
  have add: "nx_add_node H n (node_attr e) = H @ [(n, \<lparr>node_attr = node_attr e, succ = []\<rparr>)]"
    using new by (simp add: nx_add_node_def)
  have "add_nodes_from H (map node_entry (p # R))
          = add_nodes_from (H @ [(n, \<lparr>node_attr = node_attr e, succ = []\<rparr>)]) (map node_entry R)"
    using ok by (simp add: p pop add node_ok_def)
  also have "\<dots> = Inr ((H @ [(n, \<lparr>node_attr = node_attr e, succ = []\<rparr>)]) @
                      map (\<lambda>(n, e). (n, \<lparr>node_attr = node_attr e, succ = []\<rparr>)) R)"
    using dist rest by (rule Cons.IH)
  finally show ?case by (simp add: p)
qed

lemma update_append_new:
  "k \<notin> set (map fst xs) \<Longrightarrow> AList.update k v xs = xs @ [(k, v)]"
  by (induction xs) auto

lemma map_entry_cong_at:
  "map_of H u = Some eu \<Longrightarrow> F eu = F' eu \<Longrightarrow> AList.map_entry u F H = AList.map_entry u F' H"
  by (induction H) (auto split: if_splits)

lemma map_entry_twice:
  "AList.map_entry k f (AList.map_entry k g xs) = AList.map_entry k (f \<circ> g) xs"
  by (induction xs) auto

lemma map_entry_append_at:
  "u \<notin> set (map fst xs) \<Longrightarrow>
   AList.map_entry u f (xs @ (u, x) # ys) = xs @ (u, f x) # ys"
  by (induction xs) auto

lemma pop_endpoints:
  assumes "edge_ok u v d"
  shows "\<exists>X. pop_str ''source'' (edge_entry u (v, d)) = Inr (u, X) \<and>
             pop_str ''target'' X = Inr (v, without_endpoints d)"
proof -
  let ?E = "[''source'' \<mapsto> PStr u, ''target'' \<mapsto> PStr v] ++ d"
  have s: "?E ''source'' = Some (PStr u)" and t: "?E ''target'' = Some (PStr v)"
    using assms by (auto simp: edge_ok_def map_add_def split: option.splits)
  have pop1: "pop_str ''source'' (edge_entry u (v, d)) = Inr (u, ?E(''source'' := None))"
    using s by (simp add: pop_str_def edge_entry_def)
  have t': "(?E(''source'' := None)) ''target'' = Some (PStr v)"
    using t by simp
  have rest: "(?E(''source'' := None))(''target'' := None) = without_endpoints d"
    by (auto simp: without_endpoints_def map_add_def fun_eq_iff split: option.splits)
  have pop2: "pop_str ''target'' (?E(''source'' := None)) = Inr (v, without_endpoints d)"
    using t' rest by (simp add: pop_str_def)
  from pop1 pop2 show ?thesis by blast
qed

lemma nx_add_edge_new:
  assumes u: "map_of H u = Some eu" and v: "nx_has_node H v"
    and new: "v \<notin> set (map fst (succ eu))"
  shows "nx_add_edge H u v a = AList.map_entry u (\<lambda>e. e\<lparr>succ := succ eu @ [(v, a)]\<rparr>) H"
proof -
  have hu: "nx_has_node H u"
    using u by (simp add: nx_has_node_iff)
  have none: "map_of (succ eu) v = None"
    using new by (simp add: map_of_eq_None_iff)
  have "nx_add_edge H u v a =
          AList.map_entry u
           (\<lambda>e. e\<lparr>succ := AList.update v
                    ((case map_of (succ e) v of None \<Rightarrow> Map.empty | Some datadict \<Rightarrow> datadict)
                       ++ a)
                    (succ e)\<rparr>) H"
    using hu v by (simp add: nx_add_edge_def)
  also have "\<dots> = AList.map_entry u (\<lambda>e. e\<lparr>succ := succ eu @ [(v, a)]\<rparr>) H"
    using u by (rule map_entry_cong_at) (simp add: none update_append_new [OF new])
  finally show ?thesis .
qed

lemma map_entry_id_at:
  "map_of H u = Some eu \<Longrightarrow> F eu = eu \<Longrightarrow> AList.map_entry u F H = H"
  by (induction H) (auto split: if_splits)

lemma nx_has_node_map_entry: "nx_has_node (AList.map_entry k f H) = nx_has_node H"
  by (simp add: nx_has_node_def fun_eq_iff keys_map_entry)

lemma add_edges_from_succ:
  assumes "map_of H u = Some eu"
    and "distinct (map fst (succ eu) @ map fst R)"
    and "list_all (\<lambda>(v, d). nx_has_node H v \<and> edge_ok u v d) R"
  shows "add_edges_from H (map (edge_entry u) R)
           = Inr (AList.map_entry u
                    (\<lambda>e. e\<lparr>succ := succ eu @ map (\<lambda>(v, d). (v, without_endpoints d)) R\<rparr>) H)"
  using assms
proof (induction R arbitrary: H eu)
  case Nil
  have "AList.map_entry u (\<lambda>e. e\<lparr>succ := succ eu\<rparr>) H = H"
    using Nil.prems(1) by (rule map_entry_id_at) simp
  then show ?case by simp
next
  case (Cons p R)
  obtain v d where p: "p = (v, d)" by (cases p)
  let ?wd = "without_endpoints d"
  let ?eu' = "eu\<lparr>succ := succ eu @ [(v, ?wd)]\<rparr>"
  let ?H' = "AList.map_entry u (\<lambda>e. e\<lparr>succ := succ eu @ [(v, ?wd)]\<rparr>) H"
  from Cons.prems p have hv: "nx_has_node H v" and ok: "edge_ok u v d"
    and new: "v \<notin> set (map fst (succ eu))"
    and rest: "list_all (\<lambda>(v, d). nx_has_node H v \<and> edge_ok u v d) R"
    and dist: "distinct (map fst (succ ?eu') @ map fst R)"
    by auto
  from pop_endpoints [OF ok] obtain X where
    pop1: "pop_str ''source'' (edge_entry u (v, d)) = Inr (u, X)"
    and pop2: "pop_str ''target'' X = Inr (v, ?wd)"
    by blast
  have reserved: "?wd ''self'' = None" "?wd ''u_of_edge'' = None" "?wd ''v_of_edge'' = None"
    using ok by (simp_all add: edge_ok_def without_endpoints_def)
  have add: "nx_add_edge H u v ?wd = ?H'"
    using Cons.prems(1) hv new by (rule nx_add_edge_new)
  have step: "add_edges_from H (map (edge_entry u) (p # R))
                = add_edges_from ?H' (map (edge_entry u) R)"
    by (simp add: p pop1 pop2 reserved add)
  have u': "map_of ?H' u = Some ?eu'"
    using Cons.prems(1) by (simp add: AList.map_of_map_entry)
  have rest': "list_all (\<lambda>(v, d). nx_has_node ?H' v \<and> edge_ok u v d) R"
    using rest by (simp add: nx_has_node_map_entry)
  have "add_edges_from ?H' (map (edge_entry u) R)
          = Inr (AList.map_entry u
                   (\<lambda>e. e\<lparr>succ := succ ?eu' @ map (\<lambda>(v, d). (v, without_endpoints d)) R\<rparr>) ?H')"
    using u' dist rest' by (rule Cons.IH)
  also have "\<dots> = Inr (AList.map_entry u
                   (\<lambda>e. e\<lparr>succ := succ eu @ map (\<lambda>(v, d). (v, without_endpoints d)) (p # R)\<rparr>) H)"
    by (simp add: map_entry_twice comp_def p)
  finally show ?case using step by simp
qed

lemma fst_emptied [simp]: "fst (emptied p) = fst p"
  by (cases p) (simp add: emptied_def)

lemma fst_rebuilt [simp]: "fst (rebuilt p) = fst p"
  by (cases p) (simp add: rebuilt_def)

lemma add_edges_from_append:
  "add_edges_from H (xs @ ys)
     = (case add_edges_from H xs of Inl err \<Rightarrow> Inl err | Inr H' \<Rightarrow> add_edges_from H' ys)"
  by (induction xs arbitrary: H) (auto split: sum.splits)

lemma map_of_append_at:
  "u \<notin> set (map fst xs) \<Longrightarrow> map_of (xs @ (u, x) # ys) u = Some x"
  by (induction xs) auto

lemma add_edges_from_nodes:
  assumes "distinct (map fst P @ map fst Q)"
    and "list_all (\<lambda>(u, e). distinct (map fst (succ e)) \<and>
                    list_all (\<lambda>(v, d). v \<in> set (map fst P @ map fst Q) \<and> edge_ok u v d) (succ e)) Q"
  shows "add_edges_from (map rebuilt P @ map emptied Q)
           (concat (map (\<lambda>(u, e). map (edge_entry u) (succ e)) Q))
         = Inr (map rebuilt (P @ Q))"
  using assms
proof (induction Q arbitrary: P)
  case Nil
  show ?case by simp
next
  case (Cons p Q)
  obtain u e where p: "p = (u, e)" by (cases p)
  let ?eu = "\<lparr>node_attr = node_attr e, succ = []\<rparr>"
  let ?H = "map rebuilt P @ (u, ?eu) # map emptied Q"
  let ?wd = "\<lambda>(v, d). (v, without_endpoints d)"
  from Cons.prems p have fresh: "u \<notin> set (map fst (map rebuilt P))"
    by (auto simp: comp_def)
  have at: "map_of ?H u = Some ?eu"
    using fresh by (rule map_of_append_at)
  from Cons.prems p have dsucc: "distinct (map fst (succ ?eu) @ map fst (succ e))"
    by simp
  have keys: "set (map fst ?H) = set (map fst P @ map fst (p # Q))"
    by (auto simp: p comp_def)
  from Cons.prems p have
    "list_all (\<lambda>(v, d). v \<in> set (map fst P @ map fst (p # Q)) \<and> edge_ok u v d) (succ e)"
    by simp
  then have targets: "list_all (\<lambda>(v, d). nx_has_node ?H v \<and> edge_ok u v d) (succ e)"
    unfolding nx_has_node_def keys .
  have inner: "add_edges_from ?H (map (edge_entry u) (succ e))
                 = Inr (AList.map_entry u (\<lambda>x. x\<lparr>succ := succ ?eu @ map ?wd (succ e)\<rparr>) ?H)"
    using at dsucc targets by (rule add_edges_from_succ)
  have after: "AList.map_entry u (\<lambda>x. x\<lparr>succ := succ ?eu @ map ?wd (succ e)\<rparr>) ?H
                 = map rebuilt (P @ [p]) @ map emptied Q"
    using fresh by (simp add: map_entry_append_at p rebuilt_def)
  from Cons.prems have dist': "distinct (map fst (P @ [p]) @ map fst Q)"
    by auto
  from Cons.prems p have rest':
    "list_all (\<lambda>(u, e). distinct (map fst (succ e)) \<and>
        list_all (\<lambda>(v, d). v \<in> set (map fst (P @ [p]) @ map fst Q) \<and> edge_ok u v d) (succ e)) Q"
    by simp
  have "add_edges_from (map rebuilt P @ map emptied (p # Q))
           (concat (map (\<lambda>(u, e). map (edge_entry u) (succ e)) (p # Q)))
        = add_edges_from (map rebuilt (P @ [p]) @ map emptied Q)
            (concat (map (\<lambda>(u, e). map (edge_entry u) (succ e)) Q))"
    using inner after by (simp add: p emptied_def add_edges_from_append)
  also have "\<dots> = Inr (map rebuilt ((P @ [p]) @ Q))"
    using dist' rest' by (rule Cons.IH)
  finally show ?case by simp
qed

lemma d_nodes_entries: "d_nodes (to_dict g) = map node_entry (cg_graph g)"
  by (simp add: to_dict_def nx_nodes_data_def node_entry_def comp_def case_prod_beta)

lemma d_edges_entries:
  "d_edges (to_dict g) = concat (map (\<lambda>(u, e). map (edge_entry u) (succ e)) (cg_graph g))"
proof -
  have "map (\<lambda>(u, v, data). [''source'' \<mapsto> PStr u, ''target'' \<mapsto> PStr v] ++ data)
          (concat (map (\<lambda>(u, e). map (\<lambda>(v, d). (u, v, d)) (succ e)) G))
        = concat (map (\<lambda>(u, e). map (edge_entry u) (succ e)) G)"
    for G :: DiGraph
    by (induction G) (simp_all add: edge_entry_def case_prod_beta comp_def del: fun_upd_apply)
  then show ?thesis
    by (simp add: to_dict_def nx_edges_data_def)
qed

lemma emptied_eq:
  "map (\<lambda>(n, e). (n, \<lparr>node_attr = node_attr e, succ = []\<rparr>)) G = map emptied G"
  by (simp add: emptied_def)

lemma from_dict_to_dict_reloaded:
  assumes wf: "well_formed g"
  shows "from_dict md5 now_id now (to_dict g) = Inr (reloaded g)"
proof -
  let ?G = "cg_graph g"
  from wf have gid: "cg_graph_id g \<noteq> []"
    and dist: "distinct (map fst ?G)"
    and entries: "list_all (\<lambda>(u, e). node_ok (node_attr e) \<and>
                  distinct (map fst (succ e)) \<and>
                  list_all (\<lambda>(v, d). nx_has_node ?G v \<and> edge_ok u v d) (succ e)) ?G"
    by (simp_all add: well_formed_def)
  have nodes_ok: "list_all (\<lambda>(n, e). node_ok (node_attr e)) ?G"
    using entries by (auto simp: list_all_iff)
  have edges_ok: "list_all (\<lambda>(u, e). distinct (map fst (succ e)) \<and>
        list_all (\<lambda>(v, d). v \<in> set (map fst [] @ map fst ?G) \<and> edge_ok u v d) (succ e)) ?G"
    using entries by (auto simp: list_all_iff nx_has_node_def)
  have nodes: "add_nodes_from [] (d_nodes (to_dict g)) = Inr (map emptied ?G)"
    using add_nodes_from_entries [of "[]" ?G] dist nodes_ok
    by (simp add: d_nodes_entries emptied_eq)
  have "add_edges_from (map rebuilt [] @ map emptied ?G) (d_edges (to_dict g))
          = Inr (map rebuilt ([] @ ?G))"
    unfolding d_edges_entries
    by (rule add_edges_from_nodes) (use dist edges_ok in simp_all)
  then have edges: "add_edges_from (map emptied ?G) (d_edges (to_dict g)) = Inr (map rebuilt ?G)"
    by simp
  have hdr: "d_graph_id (to_dict g) = cg_graph_id g" "d_created_at (to_dict g) = cg_created_at g"
    "d_metadata (to_dict g) = cg_metadata g"
    by (simp_all add: to_dict_def)
  show ?thesis
    using gid
    by (simp add: from_dict_def Let_def init_graph_def hdr nodes edges reloaded_def)
qed

lemma list_all_map_entry:
  "list_all P xs \<Longrightarrow> (\<And>e. P (k, e) \<Longrightarrow> P (k, f e)) \<Longrightarrow> list_all P (AList.map_entry k f xs)"
  by (induction xs) auto

lemma list_all_update:
  "list_all P xs \<Longrightarrow> P (k, v) \<Longrightarrow> list_all P (AList.update k v xs)"
  by (induction xs) auto

lemma node_ok_node_to_dict: "node_ok (node_to_dict node)"
  by (simp add: node_ok_def node_to_dict_def)

lemma node_ok_add: "node_ok a \<Longrightarrow> node_ok b \<Longrightarrow> node_ok (a ++ b)"
  by (simp add: node_ok_def map_add_def)

lemma edge_ok_edge_to_dict:
  assumes "ce_source edge = u" and "ce_target edge = v"
    and "old = Map.empty \<or> edge_ok u v old"
  shows "edge_ok u v (old ++ edge_to_dict edge)"
proof -
  have new: "edge_to_dict edge ''source'' = Some (PStr u)"
    "edge_to_dict edge ''target'' = Some (PStr v)"
    "edge_to_dict edge ''self'' = None" "edge_to_dict edge ''u_of_edge'' = None"
    "edge_to_dict edge ''v_of_edge'' = None"
    using assms(1,2) by (simp_all add: edge_to_dict_def)
  have old: "old ''self'' = None" "old ''u_of_edge'' = None" "old ''v_of_edge'' = None"
    using assms(3) by (auto simp: edge_ok_def)
  show ?thesis
    by (simp add: edge_ok_def map_add_def new old)
qed

lemma well_formed_init_graph:
  assumes "md5 now_id \<noteq> [] \<or> (\<exists>s. graph_id = Some s \<and> s \<noteq> [])"
  shows "well_formed (init_graph md5 now_id now graph_id)"
  using assms
  by (auto simp: well_formed_def init_graph_def generate_id_def split: option.splits)

lemma well_formed_entries:
  "well_formed g \<longleftrightarrow>
     cg_graph_id g \<noteq> [] \<and> distinct (map fst (cg_graph g)) \<and>
     list_all (entry_ok (set (map fst (cg_graph g)))) (cg_graph g)"
  by (simp add: well_formed_def entry_ok_def nx_has_node_def)

lemma entry_ok_mono: "K \<subseteq> K' \<Longrightarrow> entry_ok K p \<Longrightarrow> entry_ok K' p"
  by (cases p) (auto simp: entry_ok_def list_all_iff)

lemma well_formed_add_node:
  assumes wf: "well_formed g"
  shows "well_formed (fst (add_node md5 g now content node_type confidence metadata node_id))"
proof -
  define n where "n = (case node_id of None \<Rightarrow> generate_node_id md5 content node_type
                       | Some i \<Rightarrow> i)"
  define a where "a = node_to_dict \<lparr>cn_node_id = n, cn_node_type = node_type,
      cn_content = content, cn_confidence = confidence, cn_metadata = or_empty metadata,
      cn_timestamp = now\<rparr>"
  let ?G = "cg_graph g"
  let ?K = "set (map fst ?G)"
  have res: "fst (add_node md5 g now content node_type confidence metadata node_id)
               = g\<lparr>cg_graph := nx_add_node ?G n a\<rparr>"
    by (simp add: add_node_def Let_def n_def a_def)
  from wf have gid: "cg_graph_id g \<noteq> []" and dist: "distinct (map fst ?G)"
    and ok: "list_all (entry_ok ?K) ?G"
    by (simp_all add: well_formed_entries)
  have a_ok: "node_ok a" by (simp add: a_def node_ok_node_to_dict)
  show ?thesis
  proof (cases "nx_has_node ?G n")
    case True
    then have G': "nx_add_node ?G n a
                     = AList.map_entry n (\<lambda>e. e\<lparr>node_attr := node_attr e ++ a\<rparr>) ?G"
      by (simp add: nx_add_node_def)
    have "list_all (entry_ok ?K) (AList.map_entry n (\<lambda>e. e\<lparr>node_attr := node_attr e ++ a\<rparr>) ?G)"
      using ok
    proof (rule list_all_map_entry)
      fix e assume "entry_ok ?K (n, e)"
      then show "entry_ok ?K (n, e\<lparr>node_attr := node_attr e ++ a\<rparr>)"
        using a_ok by (simp add: entry_ok_def node_ok_add)
    qed
    then show ?thesis
      using gid dist by (simp add: res G' well_formed_entries keys_map_entry)
  next
    case False
    then have G': "nx_add_node ?G n a = ?G @ [(n, \<lparr>node_attr = a, succ = []\<rparr>)]"
      by (simp add: nx_add_node_def)
    have fresh: "n \<notin> ?K" using False by (simp add: nx_has_node_def)
    have old: "list_all (entry_ok (insert n ?K)) ?G"
      using ok entry_ok_mono [of ?K "insert n ?K"] by (auto simp: list_all_iff)
    have new: "entry_ok (insert n ?K) (n, \<lparr>node_attr = a, succ = []\<rparr>)"
      using a_ok by (simp add: entry_ok_def)
    show ?thesis
      using gid dist fresh old new by (simp add: res G' well_formed_entries)
  qed
qed

lemma well_formed_add_edge:
  assumes wf: "well_formed g"
  shows "well_formed (fst (add_edge g source target edge_type confidence causal_strength
                             evidence_refs reasoning_type metadata))"
proof (cases "nx_has_node (cg_graph g) source \<and> nx_has_node (cg_graph g) target")
  case False
  then show ?thesis using wf by (auto simp: add_edge_def)
next
  case True
  define a where "a = edge_to_dict \<lparr>ce_source = source, ce_target = target,
      ce_edge_type = edge_type, ce_confidence = confidence, ce_causal_strength = causal_strength,
      ce_evidence_refs = or_empty evidence_refs, ce_reasoning_type = reasoning_type,
      ce_metadata = or_empty metadata\<rparr>"
  let ?G = "cg_graph g"
  let ?K = "set (map fst ?G)"
  let ?F = "\<lambda>e. e\<lparr>succ := AList.update target
                    ((case map_of (succ e) target of None \<Rightarrow> Map.empty | Some datadict \<Rightarrow> datadict)
                       ++ a)
                    (succ e)\<rparr>"
  have res: "fst (add_edge g source target edge_type confidence causal_strength
                    evidence_refs reasoning_type metadata)
               = g\<lparr>cg_graph := AList.map_entry source ?F ?G\<rparr>"
    using True by (simp add: add_edge_def nx_add_edge_def a_def)
  from wf have gid: "cg_graph_id g \<noteq> []" and dist: "distinct (map fst ?G)"
    and ok: "list_all (entry_ok ?K) ?G"
    by (simp_all add: well_formed_entries)
  have tK: "target \<in> ?K" using True by (simp add: nx_has_node_def)
  have "list_all (entry_ok ?K) (AList.map_entry source ?F ?G)"
    using ok
  proof (rule list_all_map_entry)
    fix e assume e: "entry_ok ?K (source, e)"
    let ?old = "case map_of (succ e) target of None \<Rightarrow> Map.empty | Some datadict \<Rightarrow> datadict"
    from e have attr: "node_ok (node_attr e)" and ds: "distinct (map fst (succ e))"
      and es: "list_all (\<lambda>(v, d). v \<in> ?K \<and> edge_ok source v d) (succ e)"
      by (simp_all add: entry_ok_def)
    have "?old = Map.empty \<or> edge_ok source target ?old"
    proof (cases "map_of (succ e) target")
      case None
      then show ?thesis by simp
    next
      case (Some d)
      then have "(target, d) \<in> set (succ e)" by (rule map_of_SomeD)
      with es have "edge_ok source target d" by (auto simp: list_all_iff)
      with Some show ?thesis by simp
    qed
    then have new: "edge_ok source target (?old ++ a)"
      unfolding a_def by (intro edge_ok_edge_to_dict) simp_all
    have "list_all (\<lambda>(v, d). v \<in> ?K \<and> edge_ok source v d)
            (AList.update target (?old ++ a) (succ e))"
      using es by (rule list_all_update) (use tK new in simp)
    moreover have "distinct (map fst (AList.update target (?old ++ a) (succ e)))"
      using ds by (rule AList.distinct_update)
    ultimately show "entry_ok ?K (source, ?F e)"
      using attr by (simp add: entry_ok_def)
  qed
  then show ?thesis
    using gid dist by (simp add: res well_formed_entries keys_map_entry)
qed

lemma edge_entry_without_endpoints:
  assumes "edge_ok u v d"
  shows "edge_entry u (v, without_endpoints d) = edge_entry u (v, d)"
proof
  fix k
  show "edge_entry u (v, without_endpoints d) k = edge_entry u (v, d) k"
    using assms
    by (auto simp: edge_entry_def without_endpoints_def edge_ok_def map_add_def
        split: option.splits)
qed

lemma to_dict_reloaded:
  assumes wf: "well_formed g"
  shows "to_dict (reloaded g) = to_dict g"
proof -
  let ?G = "cg_graph g"
  have nodes: "node_entry (rebuilt p) = node_entry p" for p
    by (cases p) (simp add: node_entry_def rebuilt_def)
  have one: "map (edge_entry u) (succ (snd (rebuilt (u, e)))) = map (edge_entry u) (succ e)"
    if "(u, e) \<in> set ?G" for u e
  proof -
    from wf that have "list_all (\<lambda>(v, d). edge_ok u v d) (succ e)"
      by (auto simp: well_formed_def list_all_iff)
    then have "edge_entry u (v, without_endpoints d) = edge_entry u (v, d)"
      if "(v, d) \<in> set (succ e)" for v d
      using that by (auto simp: list_all_iff intro: edge_entry_without_endpoints)
    then show ?thesis
      by (auto simp: rebuilt_def)
  qed
  have comp_eq: "map ((\<lambda>(u, e). map (edge_entry u) (succ e)) \<circ> rebuilt) ?G
          = map (\<lambda>(u, e). map (edge_entry u) (succ e)) ?G"
  proof (rule map_cong [OF refl])
    fix p assume p: "p \<in> set ?G"
    obtain u e where pe: "p = (u, e)" by (cases p)
    have "map (edge_entry u) (succ (snd (rebuilt (u, e)))) = map (edge_entry u) (succ e)"
      using p pe by (intro one) simp
    then show "((\<lambda>(u, e). map (edge_entry u) (succ e)) \<circ> rebuilt) p
                 = (\<lambda>(u, e). map (edge_entry u) (succ e)) p"
      by (simp add: pe rebuilt_def)
  qed
  have edges: "concat (map (\<lambda>(u, e). map (edge_entry u) (succ e)) (map rebuilt ?G))
          = concat (map (\<lambda>(u, e). map (edge_entry u) (succ e)) ?G)"
    by (simp only: map_map comp_eq)
  have "d_nodes (to_dict (reloaded g)) = d_nodes (to_dict g)"
    unfolding d_nodes_entries by (simp add: reloaded_def nodes)
  moreover have "d_edges (to_dict (reloaded g)) = d_edges (to_dict g)"
    unfolding d_edges_entries using edges by (simp add: reloaded_def)
  moreover have "d_graph_id (to_dict (reloaded g)) = d_graph_id (to_dict g)"
    "d_created_at (to_dict (reloaded g)) = d_created_at (to_dict g)"
    "d_metadata (to_dict (reloaded g)) = d_metadata (to_dict g)"
    by (simp_all add: to_dict_def reloaded_def)
  ultimately show ?thesis
    by (intro document.equality) simp_all
qed

text \<open>
  C5 (amended). For every graph built through the graph's own operations (no identifier
  twice, every edge between nodes of the graph, a non-empty graph identifier),
  \<open>from_dict\<close> accepts the document \<open>to_dict\<close> produces and rebuilds a graph with the
  same identifier, creation time and metadata, the same nodes in the same order with the
  same attribute dictionaries, and the same edges in the same order whose attribute
  dictionaries agree with the original ones on every key but \<open>source\<close> and \<open>target\<close>:
  these two entries, which \<open>add_edge\<close> stores in the attributes, are consumed as the
  endpoints and are absent from the rebuilt dictionaries. Serializing the rebuilt graph
  gives the same document again.
\<close>

theorem from_dict_to_dict:
  assumes "well_formed g"
  shows "\<exists>g'. from_dict md5 now_id now (to_dict g) = Inr g' \<and>
           cg_graph_id g' = cg_graph_id g \<and>
           cg_created_at g' = cg_created_at g \<and>
           cg_metadata g' = cg_metadata g \<and>
           map (\<lambda>(n, e). (n, node_attr e)) (cg_graph g')
             = map (\<lambda>(n, e). (n, node_attr e)) (cg_graph g) \<and>
           map (\<lambda>(u, e). (u, succ e)) (cg_graph g')
             = map (\<lambda>(u, e). (u, map (\<lambda>(v, d). (v, d(''source'' := None, ''target'' := None)))
                                   (succ e))) (cg_graph g) \<and>
           to_dict g' = to_dict g"
proof (intro exI conjI)
  show "from_dict md5 now_id now (to_dict g) = Inr (reloaded g)"
    using assms by (rule from_dict_to_dict_reloaded)
  show "cg_graph_id (reloaded g) = cg_graph_id g" by (simp add: reloaded_def)
  show "cg_created_at (reloaded g) = cg_created_at g" by (simp add: reloaded_def)
  show "cg_metadata (reloaded g) = cg_metadata g" by (simp add: reloaded_def)
  show "map (\<lambda>(n, e). (n, node_attr e)) (cg_graph (reloaded g))
          = map (\<lambda>(n, e). (n, node_attr e)) (cg_graph g)"
    by (simp add: reloaded_def rebuilt_def case_prod_beta comp_def)
  show "map (\<lambda>(u, e). (u, succ e)) (cg_graph (reloaded g))
          = map (\<lambda>(u, e). (u, map (\<lambda>(v, d). (v, d(''source'' := None, ''target'' := None)))
                                (succ e))) (cg_graph g)"
    by (simp add: reloaded_def rebuilt_def without_endpoints_def case_prod_beta comp_def)
  show "to_dict (reloaded g) = to_dict g"
    using assms by (rule to_dict_reloaded)
qed

section \<open>Properties of the bias detector\<close>

lemma Max_insert_floor:
  "finite S \<Longrightarrow> (0::real) \<le> m \<Longrightarrow> Max (insert m (insert 0 S)) = Max (insert m S)"
  by (cases "S = {}") (auto simp: max_def)

lemma Max_insert_max:
  "finite S \<Longrightarrow> Max (insert (max m c) S) = Max (insert (m::real) (insert c S))"
  by (cases "S = {}") (auto simp: max_def)

lemma py_max_node:
  "py_max m (case node ''confidence'' of None \<Rightarrow> PFloat 0.0 | Some c \<Rightarrow> c) = Inr m'
     \<Longrightarrow> m' = max m (node_confidence node)"
  by (auto simp: py_max_def node_confidence_def max_def split: option.splits pyval.splits)

lemma py_max_typed:
  "well_typed_node node \<Longrightarrow>
   \<exists>m'. py_max m (case node ''confidence'' of None \<Rightarrow> PFloat 0.0 | Some c \<Rightarrow> c) = Inr m'"
  by (auto simp: py_max_def well_typed_node_def split: option.splits pyval.splits)


lemma max_diagnosis_confidence_eq:
  "0 \<le> m \<Longrightarrow> max_diagnosis_confidence g m ids = Inr r \<Longrightarrow>
   r = Max (insert m (set (map (\<lambda>nid. case get_node g nid of None \<Rightarrow> 0.0
                                        | Some node \<Rightarrow> node_confidence node) ids)))"
proof (induction ids arbitrary: m)
  case Nil
  then show ?case by simp
next
  case (Cons nid ids)
  let ?c = "\<lambda>nid. case get_node g nid of None \<Rightarrow> 0.0 | Some node \<Rightarrow> node_confidence node"
  let ?S = "set (map ?c ids)"
  have fin: "finite ?S" by simp
  have floor: "Max (insert m (insert 0 ?S)) = Max (insert m ?S)"
    using fin Cons.prems(1) by (rule Max_insert_floor)
  show ?case
  proof (cases "get_node g nid")
    case None
    with Cons.prems have "max_diagnosis_confidence g m ids = Inr r" by simp
    with Cons.IH Cons.prems(1) have r: "r = Max (insert m ?S)" by blast
    have c0: "?c nid = 0" using None by simp
    show ?thesis
      using r floor c0 by simp
  next
    case (Some node)
    show ?thesis
    proof (cases "node = Map.empty")
      case True
      with Some Cons.prems have "max_diagnosis_confidence g m ids = Inr r" by simp
      with Cons.IH Cons.prems(1) have r: "r = Max (insert m ?S)" by blast
      have c0: "?c nid = 0" using Some True by (simp add: node_confidence_def)
      show ?thesis
        using r floor c0 by simp
    next
      case False
      with Some Cons.prems obtain m' where
        m': "py_max m (case node ''confidence'' of None \<Rightarrow> PFloat 0.0 | Some c \<Rightarrow> c) = Inr m'"
        and rest: "max_diagnosis_confidence g m' ids = Inr r"
        by (auto split: sum.splits)
      have m'_eq: "m' = max m (node_confidence node)" by (rule py_max_node [of m node m', OF m'])
      then have "0 \<le> m'" using Cons.prems(1) by simp
      with Cons.IH rest have r: "r = Max (insert m' ?S)" by blast
      have c: "?c nid = node_confidence node" using Some by simp
      have "Max (insert m' ?S) = Max (insert m (insert (node_confidence node) ?S))"
        unfolding m'_eq using fin by (rule Max_insert_max)
      with r c show ?thesis by simp
    qed
  qed
qed


lemma check_premature_closure_iff:
  assumes "check_premature_closure g = Inr flagged"
  shows "flagged \<longleftrightarrow>
           diagnosis_confidences g \<noteq> [] \<and> Max (set (diagnosis_confidences g)) > 0.8 \<and>
           length (find_nodes_by_type g EVIDENCE) < 2"
proof (cases "find_nodes_by_type g DIAGNOSIS = []")
  case True
  with assms show ?thesis
    by (simp add: check_premature_closure_def diagnosis_confidences_def)
next
  case False
  let ?ids = "find_nodes_by_type g DIAGNOSIS"
  from False assms obtain r where
    r: "max_diagnosis_confidence g 0.0 ?ids = Inr r"
    and c: "flagged = (r > 0.8 \<and> length (find_nodes_by_type g EVIDENCE) < 2)"
    by (auto simp: check_premature_closure_def Let_def split: sum.splits if_splits)
  have "r = Max (insert 0 (set (diagnosis_confidences g)))"
    using max_diagnosis_confidence_eq [OF _ r] by (simp add: diagnosis_confidences_def)
  moreover have ne: "set (diagnosis_confidences g) \<noteq> {}"
    using False by (simp add: diagnosis_confidences_def)
  ultimately have "r = max 0 (Max (set (diagnosis_confidences g)))"
    by simp
  then have "r > 0.8 \<longleftrightarrow> Max (set (diagnosis_confidences g)) > 0.8"
    by (auto simp: max_def)
  with c ne show ?thesis by auto
qed

lemma scan_attributes_typed:
  "well_typed_node node_data \<Longrightarrow>
   \<exists>st'. scan_attributes B metadata content node_data st names = Inr st'"
proof (induction names arbitrary: st)
  case Nil
  show ?case by simp
next
  case (Cons attr rest)
  obtain m' where "py_max (impact_score st)
      (case node_data ''confidence'' of None \<Rightarrow> PFloat 0.0 | Some c \<Rightarrow> c) = Inr m'"
    using py_max_typed [OF Cons.prems] by blast
  with Cons.IH [OF Cons.prems] show ?case
    by (simp add: Let_def)
qed


lemma scan_nodes_typed:
  "list_all (\<lambda>(nid, node). well_typed_node node) nodes \<Longrightarrow>
   \<exists>st'. scan_nodes B metadata st nodes = Inr st'"
proof (induction nodes arbitrary: st)
  case Nil
  show ?case by simp
next
  case (Cons p rest)
  obtain nid node where p: "p = (nid, node)" by (cases p)
  from Cons.prems p have typed: "well_typed_node node"
    and rest: "list_all (\<lambda>(nid, node). well_typed_node node) rest"
    by simp_all
  obtain content where content:
    "(case node ''content'' of None \<Rightarrow> Inr (py_lower B [])
      | Some (PStr s) \<Rightarrow> Inr (py_lower B s)
      | Some _ \<Rightarrow> Inl AttributeError) = Inr content"
    using typed by (auto simp: well_typed_node_def split: option.splits pyval.splits)
  obtain st1 where st1:
    "scan_attributes B metadata content node st SENSITIVE_ATTRIBUTES = Inr st1"
    using scan_attributes_typed [OF typed] by blast
  from Cons.IH [OF rest] obtain st2 where "scan_nodes B metadata st1 rest = Inr st2"
    by blast
  then show ?case
    by (simp add: p content st1)
qed

lemma get_node_typed:
  "well_typed_nodes g \<Longrightarrow> get_node g nid = Some node \<Longrightarrow> well_typed_node node"
proof -
  assume typed: "well_typed_nodes g" and node: "get_node g nid = Some node"
  from node obtain e where e: "map_of (cg_graph g) nid = Some e" and n: "node = node_attr e"
    by (auto simp: get_node_def)
  from e have "(nid, e) \<in> set (cg_graph g)" by (rule map_of_SomeD)
  with typed n show ?thesis
    by (auto simp: well_typed_nodes_def list_all_iff)
qed

lemma max_diagnosis_confidence_typed:
  "well_typed_nodes g \<Longrightarrow> \<exists>r. max_diagnosis_confidence g m ids = Inr r"
proof (induction ids arbitrary: m)
  case Nil
  show ?case by simp
next
  case (Cons nid ids)
  show ?case
  proof (cases "get_node g nid")
    case None
    with Cons.IH [OF Cons.prems] show ?thesis by simp
  next
    case (Some node)
    obtain m' where "py_max m
        (case node ''confidence'' of None \<Rightarrow> PFloat 0.0 | Some c \<Rightarrow> c) = Inr m'"
      using py_max_typed [OF get_node_typed [OF Cons.prems Some]] by blast
    with Some Cons.IH [OF Cons.prems] show ?thesis by simp
  qed
qed

lemma check_premature_closure_typed:
  "well_typed_nodes g \<Longrightarrow> \<exists>flagged. check_premature_closure g = Inr flagged"
proof -
  assume typed: "well_typed_nodes g"
  obtain r where r: "max_diagnosis_confidence g 0.0 (find_nodes_by_type g DIAGNOSIS) = Inr r"
    using max_diagnosis_confidence_typed [OF typed] by blast
  show ?thesis
  proof (cases "find_nodes_by_type g DIAGNOSIS = []")
    case True
    then have "check_premature_closure g = Inr False"
      by (simp add: check_premature_closure_def)
    then show ?thesis by blast
  next
    case False
    with r have "check_premature_closure g
                 = Inr (r > 0.8 \<and> length (find_nodes_by_type g EVIDENCE) < 2)"
      by (simp add: check_premature_closure_def Let_def)
    then show ?thesis by blast
  qed
qed

lemma generate_counterfactual_suggestions_typed:
  "age_converts B metadata \<Longrightarrow>
   \<exists>suggestions. generate_counterfactual_suggestions B metadata = Inr suggestions"
  by (auto simp: age_converts_def generate_counterfactual_suggestions_def Let_def
      split: option.splits sum.splits)


lemma check_graph_returns:
  assumes "well_typed_nodes g" and "age_converts B metadata"
  shows "\<exists>r. check_graph B g metadata = Inr r"
proof -
  have "\<exists>st'. scan_nodes B metadata
           \<lparr>used_explicitly = False, used_attributes = [], impact_score = 0.0\<rparr>
           (nx_nodes_data (cg_graph g)) = Inr st'"
  proof (rule scan_nodes_typed)
    show "list_all (\<lambda>(nid, node). well_typed_node node) (nx_nodes_data (cg_graph g))"
      using assms(1)
      by (auto simp: well_typed_nodes_def nx_nodes_data_def list_all_iff)
  qed
  then obtain usage where u: "check_demographic_usage B g metadata = Inr usage"
    unfolding check_demographic_usage_def by blast
  obtain flagged where c: "check_premature_closure g = Inr flagged"
    using check_premature_closure_typed [OF assms(1)] by blast
  obtain suggestions where s: "generate_counterfactual_suggestions B metadata = Inr suggestions"
    using generate_counterfactual_suggestions_typed [OF assms(2)] by blast
  show ?thesis
    unfolding check_graph_def u c s by (simp add: Let_def)
qed


lemma check_graph_report:
  assumes "check_graph B g metadata = Inr r"
  shows "\<exists>usage flagged.
           check_demographic_usage B g metadata = Inr usage \<and>
           check_premature_closure g = Inr flagged \<and>
           detected_types r =
             (if used_explicitly usage \<and> impact_score usage > 0.7
              then [''high_demographic_impact''] else []) @
             (if flagged then [''premature_closure''] else []) \<and>
           has_bias r = (length (detected_types r) > 0) \<and>
           bias_score r = min 1.0 (if length (detected_types r) > 0
                                   then 0.5 + (0.1 * real (length (detected_types r)))
                                   else 0.0)"
proof -
  obtain usage where u: "check_demographic_usage B g metadata = Inr usage"
    using assms by (cases "check_demographic_usage B g metadata") (simp_all add: check_graph_def)
  obtain flagged where c: "check_premature_closure g = Inr flagged"
    using assms u
    by (cases "check_premature_closure g") (simp_all add: check_graph_def Let_def)
  obtain suggestions where s: "generate_counterfactual_suggestions B metadata = Inr suggestions"
    using assms u c
    by (cases "generate_counterfactual_suggestions B metadata")
       (simp_all add: check_graph_def Let_def)
  define dt where "dt = (if used_explicitly usage \<and> impact_score usage > 0.7
              then [''high_demographic_impact''] else []) @
             (if flagged then [''premature_closure''] else [])"
  from assms have d: "detected_types r = dt"
    and h: "has_bias r = (length dt > 0)"
    and b: "bias_score r = min 1.0 (if length dt > 0 then 0.5 + (0.1 * real (length dt)) else 0.0)"
    unfolding check_graph_def u c s dt_def by (auto simp: Let_def)
  show ?thesis
  proof (intro exI conjI)
    show "check_demographic_usage B g metadata = Inr usage" by (rule u)
    show "check_premature_closure g = Inr flagged" by (rule c)
    show "detected_types r =
             (if used_explicitly usage \<and> impact_score usage > 0.7
              then [''high_demographic_impact''] else []) @
             (if flagged then [''premature_closure''] else [])"
      using d by (simp add: dt_def)
    show "has_bias r = (length (detected_types r) > 0)"
      using h d by simp
    show "bias_score r = min 1.0 (if length (detected_types r) > 0
                                   then 0.5 + (0.1 * real (length (detected_types r)))
                                   else 0.0)"
      using b d by simp
  qed
qed

lemma get_node_entry:
  "distinct (map fst (cg_graph g)) \<Longrightarrow> (nid, e) \<in> set (cg_graph g) \<Longrightarrow>
   get_node g nid = Some (node_attr e)"
  by (simp add: get_node_def)

lemma find_nodes_by_type_entries:
  "find_nodes_by_type g node_type
     = map fst (filter (\<lambda>(nid, e). node_attr e ''node_type'' = Some (PStr (node_type_value node_type)))
                  (cg_graph g))"
proof -
  have "map fst (filter (\<lambda>(nid, data). data ''node_type'' = Some (PStr t))
                   (map (\<lambda>(n, e). (n, node_attr e)) G))
          = map fst (filter (\<lambda>(nid, e). node_attr e ''node_type'' = Some (PStr t)) G)"
    for t and G :: DiGraph
    by (induction G) auto
  then show ?thesis
    by (simp add: find_nodes_by_type_def nx_nodes_data_def)
qed

lemma nodes_of_type_entries:
  "nodes_of_type t g
     = map (\<lambda>(nid, e). node_attr e)
         (filter (\<lambda>(nid, e). node_attr e ''node_type'' = Some (PStr t)) (cg_graph g))"
proof -
  have "filter (\<lambda>node. node ''node_type'' = Some (PStr t)) (map (\<lambda>(nid, e). node_attr e) G)
          = map (\<lambda>(nid, e). node_attr e)
              (filter (\<lambda>(nid, e). node_attr e ''node_type'' = Some (PStr t)) G)"
    for G :: DiGraph
    by (induction G) auto
  then show ?thesis by (simp add: nodes_of_type_def)
qed

lemma evidence_count:
  "length (find_nodes_by_type g EVIDENCE) = length (nodes_of_type ''evidence'' g)"
  by (simp add: find_nodes_by_type_entries nodes_of_type_entries)

lemma diagnosis_confidences_entries:
  assumes "distinct (map fst (cg_graph g))"
  shows "diagnosis_confidences g = map node_confidence (nodes_of_type ''diagnosis'' g)"
proof -
  let ?P = "\<lambda>(nid, e). node_attr e ''node_type'' = Some (PStr ''diagnosis'')"
  have "(case get_node g (fst p) of None \<Rightarrow> 0.0 | Some node \<Rightarrow> node_confidence node)
          = node_confidence ((\<lambda>(nid, e). node_attr e) p)"
    if "p \<in> set (filter ?P (cg_graph g))" for p
  proof -
    obtain nid e where p: "p = (nid, e)" by (cases p)
    with that have "(nid, e) \<in> set (cg_graph g)" by simp
    with assms have "get_node g nid = Some (node_attr e)" by (rule get_node_entry)
    then show ?thesis by (simp add: p)
  qed
  then show ?thesis
    by (simp add: diagnosis_confidences_def find_nodes_by_type_entries nodes_of_type_entries
        comp_def)
qed


text \<open>
  C6. Whenever \<open>check_graph\<close> returns a report on a graph (a dictionary of nodes, so no
  identifier occurs twice), the report lists \<open>premature_closure\<close> exactly when some node
  has type "diagnosis", the highest confidence among the nodes of type "diagnosis"
  exceeds 0.8, and fewer than two nodes have type "evidence". The detected types are
  pairwise different, \<open>has_bias\<close> says whether there is at least one, and \<open>bias_score\<close>
  is 0.5 + 0.1 times their number, capped at 1, when biased and 0 otherwise. On
  well-typed nodes and a convertible age \<open>check_graph\<close> does return a report.
\<close>

theorem check_graph_premature_closure:
  "(check_graph B g metadata = Inr r \<longrightarrow>
      (distinct (map fst (cg_graph g)) \<longrightarrow>
         (''premature_closure'' \<in> set (detected_types r) \<longleftrightarrow>
            nodes_of_type ''diagnosis'' g \<noteq> [] \<and>
            Max (set (map node_confidence (nodes_of_type ''diagnosis'' g))) > 0.8 \<and>
            length (nodes_of_type ''evidence'' g) < 2)) \<and>
      distinct (detected_types r) \<and>
      has_bias r = (card (set (detected_types r)) > 0) \<and>
      bias_score r = (if has_bias r
                      then min 1.0 (0.5 + 0.1 * real (card (set (detected_types r))))
                      else 0)) \<and>
   (well_typed_nodes g \<and> age_converts B metadata \<longrightarrow>
      (\<exists>r'. check_graph B g metadata = Inr r'))"
proof (intro conjI impI)
  assume ret: "check_graph B g metadata = Inr r"
  from check_graph_report [OF ret] obtain usage :: demographic_usage and flagged where
    c: "check_premature_closure g = Inr flagged"
    and d: "detected_types r =
             (if used_explicitly usage \<and> impact_score usage > 0.7
              then [''high_demographic_impact''] else []) @
             (if flagged then [''premature_closure''] else [])"
    and h: "has_bias r = (length (detected_types r) > 0)"
    and s: "bias_score r = min 1.0 (if length (detected_types r) > 0
                                   then 0.5 + (0.1 * real (length (detected_types r)))
                                   else 0.0)"
    by blast
  have dist: "distinct (detected_types r)"
    by (simp add: d)
  then have card: "card (set (detected_types r)) = length (detected_types r)"
    by (rule distinct_card)
  have listed: "''premature_closure'' \<in> set (detected_types r) \<longleftrightarrow> flagged"
    by (simp add: d)
  show "''premature_closure'' \<in> set (detected_types r) \<longleftrightarrow>
            nodes_of_type ''diagnosis'' g \<noteq> [] \<and>
            Max (set (map node_confidence (nodes_of_type ''diagnosis'' g))) > 0.8 \<and>
            length (nodes_of_type ''evidence'' g) < 2"
    if keys: "distinct (map fst (cg_graph g))"
  proof -
    have confs: "diagnosis_confidences g = map node_confidence (nodes_of_type ''diagnosis'' g)"
      using keys by (rule diagnosis_confidences_entries)
    from check_premature_closure_iff [OF c] listed
    show ?thesis
      unfolding confs evidence_count by simp
  qed
  show "distinct (detected_types r)" by (rule dist)
  show "has_bias r = (card (set (detected_types r)) > 0)"
    by (simp add: h card)
  show "bias_score r = (if has_bias r
                      then min 1.0 (0.5 + 0.1 * real (card (set (detected_types r))))
                      else 0)"
    unfolding card using h s by simp
next
  assume "well_typed_nodes g \<and> age_converts B metadata"
  then show "\<exists>r'. check_graph B g metadata = Inr r'"
    using check_graph_returns by blast
qed

theorem check_graph_premature_closure_witness:
  "\<forall>B md5.
     (\<exists>r. check_graph B 
        (fst (add_node md5 (fst (add_node md5 (fst (add_node md5 (init_graph md5 ''t0'' ''t0'' (Some ''g1'')) ''t1'' ''fever'' SYMPTOM 0.95 None (Some ''s1''))) ''t2'' ''pneumonia'' DIAGNOSIS 0.9 None (Some ''d1''))) ''t3'' ''guideline'' EVIDENCE 0.5 None (Some ''e1''))) Map.empty = Inr r \<and>
          ''premature_closure'' \<in> set (detected_types r) \<and> has_bias r) \<and>
     (\<exists>r. check_graph B 
        (fst (add_node md5 (init_graph md5 ''t0'' ''t0'' (Some ''g1'')) ''t1'' ''fever'' SYMPTOM 0.95 None (Some ''s1''))) Map.empty = Inr r \<and>
          ''premature_closure'' \<notin> set (detected_types r)) \<and>
     (\<exists>r. check_graph B 
        (fst (add_node md5 (fst (add_node md5 (fst (add_node md5 (init_graph md5 ''t0'' ''t0'' (Some ''g1'')) ''t1'' ''pneumonia'' DIAGNOSIS 0.9 None (Some ''d1''))) ''t2'' ''guideline'' EVIDENCE 0.5 None (Some ''e1''))) ''t3'' ''trial'' EVIDENCE 0.6 None (Some ''e2''))) Map.empty = Inr r \<and>
          ''premature_closure'' \<notin> set (detected_types r))"
proof (intro allI)
  fix B :: builtins and md5 :: "string \<Rightarrow> string"
  define mk where "mk = (\<lambda>nid ty content conf t. (nid :: string, \<lparr>node_attr = node_to_dict
      \<lparr>cn_node_id = nid, cn_node_type = ty, cn_content = content, cn_confidence = conf,
       cn_metadata = [], cn_timestamp = t\<rparr>, succ = []\<rparr>))"
  define gA where "gA = (fst (add_node md5 (fst (add_node md5 (fst (add_node md5 (init_graph md5 ''t0'' ''t0'' (Some ''g1'')) ''t1'' ''fever'' SYMPTOM 0.95 None (Some ''s1''))) ''t2'' ''pneumonia'' DIAGNOSIS 0.9 None (Some ''d1''))) ''t3'' ''guideline'' EVIDENCE 0.5 None (Some ''e1'')))"
  define gB where "gB = (fst (add_node md5 (init_graph md5 ''t0'' ''t0'' (Some ''g1'')) ''t1'' ''fever'' SYMPTOM 0.95 None (Some ''s1'')))"
  define gC where "gC = (fst (add_node md5 (fst (add_node md5 (fst (add_node md5 (init_graph md5 ''t0'' ''t0'' (Some ''g1'')) ''t1'' ''pneumonia'' DIAGNOSIS 0.9 None (Some ''d1''))) ''t2'' ''guideline'' EVIDENCE 0.5 None (Some ''e1''))) ''t3'' ''trial'' EVIDENCE 0.6 None (Some ''e2'')))"
  have GA: "cg_graph gA = [mk ''s1'' SYMPTOM ''fever'' 0.95 ''t1'',
                           mk ''d1'' DIAGNOSIS ''pneumonia'' 0.9 ''t2'',
                           mk ''e1'' EVIDENCE ''guideline'' 0.5 ''t3'']"
    by (simp add: gA_def mk_def add_node_fresh_graph nx_has_node_def init_graph_def
        or_empty_def)
  have GB: "cg_graph gB = [mk ''s1'' SYMPTOM ''fever'' 0.95 ''t1'']"
    by (simp add: gB_def mk_def add_node_fresh_graph nx_has_node_def init_graph_def
        or_empty_def)
  have GC: "cg_graph gC = [mk ''d1'' DIAGNOSIS ''pneumonia'' 0.9 ''t1'',
                           mk ''e1'' EVIDENCE ''guideline'' 0.5 ''t2'',
                           mk ''e2'' EVIDENCE ''trial'' 0.6 ''t3'']"
    by (simp add: gC_def mk_def add_node_fresh_graph nx_has_node_def init_graph_def
        or_empty_def)
  have typed: "well_typed_node (node_attr (snd (mk nid ty content conf t)))"
    for nid ty content conf t
    by (simp add: mk_def well_typed_node_def node_to_dict_def)
  have ty: "node_attr (snd (mk nid ty content conf t)) ''node_type''
              = Some (PStr (node_type_value ty))"
    and cf: "node_confidence (node_attr (snd (mk nid ty content conf t))) = conf"
    and key: "fst (mk nid ty content conf t) = nid"
    for nid ty content conf t
    by (simp_all add: mk_def node_to_dict_def node_confidence_def)
  have age: "age_converts B Map.empty"
    by (simp add: age_converts_def)
  have rule: "\<exists>r. check_graph B g Map.empty = Inr r \<and>
                (''premature_closure'' \<in> set (detected_types r) \<longleftrightarrow>
                   nodes_of_type ''diagnosis'' g \<noteq> [] \<and>
                   Max (set (map node_confidence (nodes_of_type ''diagnosis'' g))) > 0.8 \<and>
                   length (nodes_of_type ''evidence'' g) < 2) \<and>
                has_bias r = (card (set (detected_types r)) > 0)"
    if "well_typed_nodes g" and "distinct (map fst (cg_graph g))" for g
  proof -
    have "well_typed_nodes g \<and> age_converts B Map.empty"
      using that(1) age by (rule conjI)
    with conjunct2 [OF check_graph_premature_closure [of B g Map.empty]]
    obtain r where r: "check_graph B g Map.empty = Inr r"
      by (elim impE exE)
    note report = conjunct1 [OF check_graph_premature_closure [of B g Map.empty r], THEN mp, OF r]
    have iff: "''premature_closure'' \<in> set (detected_types r) \<longleftrightarrow>
                   nodes_of_type ''diagnosis'' g \<noteq> [] \<and>
                   Max (set (map node_confidence (nodes_of_type ''diagnosis'' g))) > 0.8 \<and>
                   length (nodes_of_type ''evidence'' g) < 2"
      using conjunct1 [OF report] that(2) by (rule mp)
    have hb: "has_bias r = (card (set (detected_types r)) > 0)"
      using report by (elim conjE)
    show ?thesis
      by (rule exI [of _ r]) (intro conjI r iff hb)
  qed
  have wA: "well_typed_nodes gA" and dA: "distinct (map fst (cg_graph gA))"
    by (simp_all add: well_typed_nodes_def GA case_prod_beta typed key)
  have wB: "well_typed_nodes gB" and dB: "distinct (map fst (cg_graph gB))"
    by (simp_all add: well_typed_nodes_def GB case_prod_beta typed key)
  have wC: "well_typed_nodes gC" and dC: "distinct (map fst (cg_graph gC))"
    by (simp_all add: well_typed_nodes_def GC case_prod_beta typed key)
  have nA: "map node_confidence (nodes_of_type ''diagnosis'' gA) = [0.9]"
    "length (nodes_of_type ''evidence'' gA) = 1"
    by (simp_all add: nodes_of_type_def GA case_prod_beta ty cf)
  have nB: "nodes_of_type ''diagnosis'' gB = []"
    by (simp add: nodes_of_type_def GB case_prod_beta ty)
  have nC: "length (nodes_of_type ''evidence'' gC) = 2"
    by (simp add: nodes_of_type_def GC case_prod_beta ty)
  from rule [OF wA dA] obtain rA where rA: "check_graph B gA Map.empty = Inr rA"
    and iffA: "''premature_closure'' \<in> set (detected_types rA) \<longleftrightarrow>
                   nodes_of_type ''diagnosis'' gA \<noteq> [] \<and>
                   Max (set (map node_confidence (nodes_of_type ''diagnosis'' gA))) > 0.8 \<and>
                   length (nodes_of_type ''evidence'' gA) < 2"
    and hbA: "has_bias rA = (card (set (detected_types rA)) > 0)"
    by (elim exE conjE)
  have neA: "nodes_of_type ''diagnosis'' gA \<noteq> []"
    using nA(1) by auto
  have condA: "nodes_of_type ''diagnosis'' gA \<noteq> [] \<and>
                   Max (set (map node_confidence (nodes_of_type ''diagnosis'' gA))) > 0.8 \<and>
                   length (nodes_of_type ''evidence'' gA) < 2"
    using neA by (simp add: nA)
  have pcA: "''premature_closure'' \<in> set (detected_types rA)"
    using iffA condA by (rule iffD2)
  have finA: "finite (set (detected_types rA))" by simp
  have "set (detected_types rA) \<noteq> {}"
  proof
    assume "set (detected_types rA) = {}"
    with pcA show False by simp
  qed
  then have "card (set (detected_types rA)) > 0"
    using finA by (simp add: card_gt_0_iff)
  with hbA have biasedA: "has_bias rA" by simp
  from rule [OF wB dB] obtain rB where rB: "check_graph B gB Map.empty = Inr rB"
    and iffB: "''premature_closure'' \<in> set (detected_types rB) \<longleftrightarrow>
                   nodes_of_type ''diagnosis'' gB \<noteq> [] \<and>
                   Max (set (map node_confidence (nodes_of_type ''diagnosis'' gB))) > 0.8 \<and>
                   length (nodes_of_type ''evidence'' gB) < 2"
    by (elim exE conjE)
  have pcB: "''premature_closure'' \<notin> set (detected_types rB)"
    unfolding iffB by (simp add: nB)
  from rule [OF wC dC] obtain rC where rC: "check_graph B gC Map.empty = Inr rC"
    and iffC: "''premature_closure'' \<in> set (detected_types rC) \<longleftrightarrow>
                   nodes_of_type ''diagnosis'' gC \<noteq> [] \<and>
                   Max (set (map node_confidence (nodes_of_type ''diagnosis'' gC))) > 0.8 \<and>
                   length (nodes_of_type ''evidence'' gC) < 2"
    by (elim exE conjE)
  have pcC: "''premature_closure'' \<notin> set (detected_types rC)"
    unfolding iffC by (simp add: nC)
  have A: "\<exists>r. check_graph B gA Map.empty = Inr r \<and>
          ''premature_closure'' \<in> set (detected_types r) \<and> has_bias r"
    using rA pcA biasedA by blast
  have B': "\<exists>r. check_graph B gB Map.empty = Inr r \<and>
          ''premature_closure'' \<notin> set (detected_types r)"
    using rB pcB by blast
  have C: "\<exists>r. check_graph B gC Map.empty = Inr r \<and>
          ''premature_closure'' \<notin> set (detected_types r)"
    using rC pcC by blast
  from A B' C show "(\<exists>r. check_graph B 
        (fst (add_node md5 (fst (add_node md5 (fst (add_node md5 (init_graph md5 ''t0'' ''t0'' (Some ''g1'')) ''t1'' ''fever'' SYMPTOM 0.95 None (Some ''s1''))) ''t2'' ''pneumonia'' DIAGNOSIS 0.9 None (Some ''d1''))) ''t3'' ''guideline'' EVIDENCE 0.5 None (Some ''e1''))) Map.empty = Inr r \<and>
          ''premature_closure'' \<in> set (detected_types r) \<and> has_bias r) \<and>
     (\<exists>r. check_graph B 
        (fst (add_node md5 (init_graph md5 ''t0'' ''t0'' (Some ''g1'')) ''t1'' ''fever'' SYMPTOM 0.95 None (Some ''s1''))) Map.empty = Inr r \<and>
          ''premature_closure'' \<notin> set (detected_types r)) \<and>
     (\<exists>r. check_graph B 
        (fst (add_node md5 (fst (add_node md5 (fst (add_node md5 (init_graph md5 ''t0'' ''t0'' (Some ''g1'')) ''t1'' ''pneumonia'' DIAGNOSIS 0.9 None (Some ''d1''))) ''t2'' ''guideline'' EVIDENCE 0.5 None (Some ''e1''))) ''t3'' ''trial'' EVIDENCE 0.6 None (Some ''e2''))) Map.empty = Inr r \<and>
          ''premature_closure'' \<notin> set (detected_types r))"
    unfolding gA_def gB_def gC_def by (intro conjI)
qed

end
